theory Spec2Isabelle
  imports Main "HOL-Library.Sublist"
begin

section \<open>Time, dates and the doctor directory\<close>

text \<open>
  The scheduling engine of \<^verbatim>\<open>server.py\<close> works on wall-clock datetimes of the clinic's
  time zone (\<^verbatim>\<open>_localize\<close> attaches the same zone to every value, so comparisons are
  comparisons of wall-clock time). Python's \<^verbatim>\<open>datetime\<close> and \<^verbatim>\<open>timedelta\<close> count in
  microseconds, so an instant is the number of microseconds since midnight of day 0, a date
  is Python's proleptic ordinal (\<^verbatim>\<open>date.toordinal()\<close>, day 1 is Monday 0001-01-01, the last
  day is 3652059, 9999-12-31) and a time of day is the number of microseconds after
  midnight. Busy intervals returned by the calendar are instants on the same line.
  Arithmetic that leaves the range of \<^verbatim>\<open>datetime\<close> or \<^verbatim>\<open>timedelta\<close> raises
  \<^verbatim>\<open>OverflowError\<close>.
\<close>

type_synonym instant = int
type_synonym day = int

abbreviation us_per_minute :: int where
  "us_per_minute \<equiv> 60000000"

abbreviation us_per_hour :: int where
  "us_per_hour \<equiv> 3600000000"

abbreviation us_per_day :: int where
  "us_per_day \<equiv> 86400000000"

definition date_max :: day where
  \<comment> \<open>\<^verbatim>\<open>date.max.toordinal()\<close>\<close>
  "date_max = 3652059"

definition datetime_min :: instant where
  \<comment> \<open>0001-01-01T00:00:00\<close>
  "datetime_min = us_per_day"

definition datetime_max :: instant where
  \<comment> \<open>9999-12-31T23:59:59.999999\<close>
  "datetime_max = 3652060 * us_per_day - 1"

datatype exn = OverflowError

definition timedelta_minutes :: "int \<Rightarrow> exn + int" where
  \<comment> \<open>\<^verbatim>\<open>timedelta(minutes=n)\<close>: at most 999999999 days either way\<close>
  "timedelta_minutes n =
     (if - (999999999 * 1440) \<le> n \<and> n \<le> 999999999 * 1440 + 1439
      then Inr (n * us_per_minute) else Inl OverflowError)"

definition timedelta_days :: "int \<Rightarrow> exn + int" where
  \<comment> \<open>\<^verbatim>\<open>timedelta(days=n)\<close>\<close>
  "timedelta_days n =
     (if - 999999999 \<le> n \<and> n \<le> 999999999 then Inr (n * us_per_day) else Inl OverflowError)"

definition add_timedelta :: "instant \<Rightarrow> int \<Rightarrow> exn + instant" where
  \<comment> \<open>\<^verbatim>\<open>dt + delta\<close>\<close>
  "add_timedelta dt delta =
     (if datetime_min \<le> dt + delta \<and> dt + delta \<le> datetime_max then Inr (dt + delta)
      else Inl OverflowError)"

definition plus_minutes :: "instant \<Rightarrow> int \<Rightarrow> exn + instant" where
  \<comment> \<open>\<^verbatim>\<open>dt + timedelta(minutes=n)\<close>\<close>
  "plus_minutes dt n =
     (case timedelta_minutes n of Inl x \<Rightarrow> Inl x | Inr delta \<Rightarrow> add_timedelta dt delta)"

definition combine :: "day \<Rightarrow> int \<Rightarrow> instant" where
  \<comment> \<open>\<^verbatim>\<open>_localize(datetime.combine(day.date(), t))\<close>\<close>
  "combine d t = d * us_per_day + t"

definition date_of :: "instant \<Rightarrow> day" where
  "date_of dt = dt div us_per_day"

definition day_names :: "string list" where
  "day_names = [''Mon'', ''Tue'', ''Wed'', ''Thu'', ''Fri'', ''Sat'', ''Sun'']"

definition day_name_of :: "day \<Rightarrow> string" where
  \<comment> \<open>\<^verbatim>\<open>strftime("%a")\<close>: ordinal 1 is a Monday\<close>
  "day_name_of d = day_names ! nat ((d + 6) mod 7)"

definition digit_char :: "int \<Rightarrow> char" where
  "digit_char n = ''0123456789'' ! nat n"

definition two_digits :: "int \<Rightarrow> string" where
  "two_digits n = [digit_char (n div 10), digit_char (n mod 10)]"

definition strftime_HM :: "instant \<Rightarrow> string" where
  \<comment> \<open>\<^verbatim>\<open>strftime("%H:%M")\<close>: seconds and microseconds are cut off\<close>
  "strftime_HM dt =
     two_digits ((dt mod us_per_day) div us_per_hour) @ '':''
       @ two_digits ((dt mod us_per_hour) div us_per_minute)"

text \<open>
  A Python \<^verbatim>\<open>str\<close> whose characters matter (names, e-mail addresses, descriptions,
  messages) is the list of its code points. Identifiers that are only compared for equality
  (doctor, calendar and event ids) and the texts the engine itself produces (weekday names,
  \<^verbatim>\<open>HH:MM\<close> slots, warning codes) are \<open>string\<close>s. \<open>lit\<close> gives the code points of a literal.

  \<^verbatim>\<open>str.lower\<close> and \<^verbatim>\<open>str.strip\<close> depend on the Unicode tables of the Python runtime, which
  are no part of the repository: the functions that call them take both as parameters.
\<close>

type_synonym pystr = "nat list"

definition lit :: "string \<Rightarrow> pystr" where
  "lit s = map of_char s"

record str_ops =
  str_lower :: "pystr \<Rightarrow> pystr"
  str_strip :: "pystr \<Rightarrow> pystr"

text \<open>
  A window string of the weekly schedule is kept as the outcome of the \<^verbatim>\<open>try\<close> block
  that parses it (\<^verbatim>\<open>win.split("-")\<close> into exactly two parts, each through
  \<^verbatim>\<open>time.fromisoformat\<close>): \<open>Some (start_t, end_t)\<close>, two times of day, or \<open>None\<close> when the
  block raises and the loop continues with the next window.
\<close>

type_synonym window = "(int \<times> int) option"

record doctor =
  doctor_id :: string
  name :: pystr
  weekly_schedule :: "string \<rightharpoonup> window list"
  calendar_id :: string
  email :: pystr
  location :: "pystr option"

definition find_doctor :: "doctor list \<Rightarrow> string \<Rightarrow> doctor option" where
  "find_doctor db did = find (\<lambda>d. doctor_id d = did) db"

section \<open>The external calendar\<close>

text \<open>
  A calendar event as the lifecycle operations read it: its start and end, the free-text
  description (absent or a string) and the e-mail addresses of its attendees (an attendee
  without the \<^verbatim>\<open>email\<close> key is \<open>None\<close>).
\<close>

record event =
  ev_start :: instant
  ev_end :: instant
  summary :: pystr
  description :: "pystr option"
  attendees :: "pystr option list"
  ev_location :: "pystr option"

text \<open>
  The calendar service as the engine sees it. \<open>freebusy\<close> answers a free/busy query for
  a calendar id and a time range with the busy intervals, or \<open>None\<close> when building the
  service or executing the query raises. \<open>events\<close> is the event store, keyed by calendar
  id and event id; \<open>get_error\<close> is the message of the exception that fetching a missing
  event raises. \<open>write_error\<close> is the message of the exception a write (update, delete)
  raises, if it raises. \<open>insert_reply\<close> is the provider's answer to an insert, for a body with
  or without conference data: the exception message, or the id of the created event.
  \<open>listing\<close> answers \<^verbatim>\<open>events().list\<close> for a calendar id and a time range with the ids and
  events it returns, or \<open>None\<close> when the call raises; \<open>service_error\<close> is the message of the
  exception that building the service for the listing raises, if it raises.
\<close>

record gateway =
  freebusy :: "string \<Rightarrow> instant \<Rightarrow> instant \<Rightarrow> (instant \<times> instant) list option"
  events :: "string \<times> string \<rightharpoonup> event"
  get_error :: pystr
  write_error :: "pystr option"
  insert_reply :: "bool \<Rightarrow> pystr + string"
  listing :: "string \<Rightarrow> instant \<Rightarrow> instant \<Rightarrow> (string \<times> event) list option"
  service_error :: "pystr option"

text \<open>
  The clock and the configured lead time. \<^verbatim>\<open>MIN_LEAD_MINUTES\<close> is read from the environment
  once, at start; the model takes a configuration for which
  \<^verbatim>\<open>now_local + timedelta(minutes=MIN_LEAD_MINUTES)\<close> is a datetime.
\<close>

record clock =
  now_local :: instant
  MIN_LEAD_MINUTES :: int

section \<open>Slot generation and availability\<close>

fun overlaps :: "instant \<Rightarrow> instant \<Rightarrow> (instant \<times> instant) list \<Rightarrow> bool" where
  "overlaps slot_start slot_end [] = False"
| "overlaps slot_start slot_end ((b_start, b_end) # busy) =
     (if slot_start < b_end \<and> slot_end > b_start then True
      else overlaps slot_start slot_end busy)"

text \<open>
  The inner \<^verbatim>\<open>while\<close> loop of \<^verbatim>\<open>_compute_free_slots_for_date\<close>. Nothing bounds
  \<^verbatim>\<open>slot_minutes\<close>: the loop need not exit (\<open>None\<close> is the run that never leaves it), and
  \<^verbatim>\<open>cursor + timedelta(minutes=slot_minutes)\<close> raises \<^verbatim>\<open>OverflowError\<close> when the duration or
  the sum is out of range (\<open>Some (Inl OverflowError)\<close>; no handler encloses the loop). The
  list of candidates is unbounded: the \<^verbatim>\<open>MemoryError\<close> that ends a run without exit on a
  machine is not modelled, and no theorem below rests on a run that is \<open>None\<close> inside the
  guard of the booking, whose handler would catch it.
\<close>

partial_function (option) tile ::
  "instant \<Rightarrow> int \<Rightarrow> instant \<Rightarrow> (instant \<times> instant) list
     \<Rightarrow> (exn + (instant \<times> instant) list) option"
where
  "tile cursor slot_minutes end_local slot_ranges =
     (case plus_minutes cursor slot_minutes of
        Inl x \<Rightarrow> Some (Inl x)
      | Inr next_cursor \<Rightarrow>
          if next_cursor \<le> end_local
          then tile next_cursor slot_minutes end_local (slot_ranges @ [(cursor, next_cursor)])
          else Some (Inr slot_ranges))"

text \<open>The \<^verbatim>\<open>for win in windows\<close> loop: the candidates, and the envelope of the windows.\<close>

type_synonym gen_state = "(instant \<times> instant) list \<times> instant option \<times> instant option"

fun windows_loop :: "day \<Rightarrow> int \<Rightarrow> window list \<Rightarrow> gen_state \<Rightarrow> (exn + gen_state) option" where
  "windows_loop d slot_minutes [] st = Some (Inr st)"
| "windows_loop d slot_minutes (None # windows) st = windows_loop d slot_minutes windows st"
| "windows_loop d slot_minutes (Some (start_t, end_t) # windows) (slot_ranges, earliest, latest) =
     (let start_local = combine d start_t;
          end_local = combine d end_t;
          earliest' = (case earliest of None \<Rightarrow> Some start_local
                       | Some e \<Rightarrow> if start_local < e then Some start_local else Some e);
          latest' = (case latest of None \<Rightarrow> Some end_local
                     | Some l \<Rightarrow> if end_local > l then Some end_local else Some l)
      in case tile start_local slot_minutes end_local slot_ranges of
           None \<Rightarrow> None
         | Some (Inl x) \<Rightarrow> Some (Inl x)
         | Some (Inr slot_ranges') \<Rightarrow>
             windows_loop d slot_minutes windows (slot_ranges', earliest', latest'))"

fun free_loop :: "bool \<Rightarrow> instant \<Rightarrow> (instant \<times> instant) list \<Rightarrow> (instant \<times> instant) list \<Rightarrow> string list" where
  "free_loop is_today cutoff busy_list [] = []"
| "free_loop is_today cutoff busy_list ((s_start, s_end) # slot_ranges) =
     (if is_today \<and> s_start < cutoff then free_loop is_today cutoff busy_list slot_ranges
      else if \<not> overlaps s_start s_end busy_list
      then strftime_HM s_start # free_loop is_today cutoff busy_list slot_ranges
      else free_loop is_today cutoff busy_list slot_ranges)"

type_synonym meta = "string \<times> string"

definition no_schedule :: meta where
  "no_schedule = (''no_schedule'', ''No clinic hours for this day'')"

definition invalid_date :: meta where
  "invalid_date = (''invalid_date'', ''Invalid date format'')"

definition freebusy_error :: meta where
  "freebusy_error = (''freebusy_error'', ''Calendar free/busy query failed'')"

definition no_slots :: "string \<Rightarrow> meta" where
  "no_slots code = (code, ''No available slots for the selected day'')"

text \<open>
  \<^verbatim>\<open>_compute_free_slots_for_date\<close>. The date argument is the outcome of
  \<^verbatim>\<open>datetime.fromisoformat(date)\<close>: the day, or \<open>None\<close> when it raises. The function returns
  (\<open>Some (Inr r)\<close>), raises out of the tiling loop (\<open>Some (Inl x)\<close>) or never returns
  (\<open>None\<close>).
\<close>

definition compute_free_slots_for_date ::
  "gateway \<Rightarrow> clock \<Rightarrow> doctor \<Rightarrow> day option \<Rightarrow> int
     \<Rightarrow> (exn + string list \<times> meta option) option" where
  "compute_free_slots_for_date g clk doc date slot_minutes =
     (case date of
        None \<Rightarrow> Some (Inr ([], Some invalid_date))
      | Some d \<Rightarrow>
          (case (case weekly_schedule doc (day_name_of d) of None \<Rightarrow> [] | Some ws \<Rightarrow> ws) of
             [] \<Rightarrow> Some (Inr ([], Some no_schedule))
           | w # ws \<Rightarrow>
               (case windows_loop d slot_minutes (w # ws) ([], None, None) of
                  None \<Rightarrow> None
                | Some (Inl x) \<Rightarrow> Some (Inl x)
                | Some (Inr (slot_ranges, None, _)) \<Rightarrow> Some (Inr ([], Some no_schedule))
                | Some (Inr (slot_ranges, Some earliest, None)) \<Rightarrow> Some (Inr ([], Some no_schedule))
                | Some (Inr (slot_ranges, Some earliest, Some latest)) \<Rightarrow>
                    (case freebusy g (calendar_id doc) earliest latest of
                       None \<Rightarrow> Some (Inr ([], Some freebusy_error))
                     | Some busy_list \<Rightarrow>
                         (let is_today = (d = date_of (now_local clk));
                              cutoff = now_local clk + MIN_LEAD_MINUTES clk * us_per_minute;
                              free_slots = free_loop is_today cutoff busy_list slot_ranges
                          in if free_slots = []
                             then (let any_future_candidates =
                                         (\<exists>rng \<in> set slot_ranges. \<not> is_today \<or> fst rng \<ge> cutoff)
                                   in Some (Inr ([], Some (no_slots
                                        (if \<not> any_future_candidates then ''no_future_slots''
                                         else ''fully_booked'')))))
                             else Some (Inr (free_slots, None)))))))"

section \<open>Booking\<close>

fun within_loop :: "instant \<Rightarrow> instant \<Rightarrow> window list \<Rightarrow> bool" where
  "within_loop start_local end_local [] = False"
| "within_loop start_local end_local (None # windows) = within_loop start_local end_local windows"
| "within_loop start_local end_local (Some (start_t, end_t) # windows) =
     (if start_local \<ge> combine (date_of start_local) start_t
         \<and> end_local \<le> combine (date_of start_local) end_t
      then True
      else within_loop start_local end_local windows)"

definition within_schedule :: "doctor \<Rightarrow> instant \<Rightarrow> instant \<Rightarrow> bool" where
  "within_schedule doc start_local end_local =
     within_loop start_local end_local
       (case weekly_schedule doc (day_name_of (date_of start_local)) of
          None \<Rightarrow> [] | Some ws \<Rightarrow> ws)"

definition slot_conflicts_with_calendar :: "gateway \<Rightarrow> doctor \<Rightarrow> instant \<Rightarrow> instant \<Rightarrow> bool" where
  \<comment> \<open>when the query raises: "be conservative and say it conflicts"\<close>
  "slot_conflicts_with_calendar g doc start_local end_local =
     (case freebusy g (calendar_id doc) start_local end_local of
        None \<Rightarrow> True
      | Some busy_list \<Rightarrow> overlaps start_local end_local busy_list)"

text \<open>
  The tools answer with a dictionary that holds an \<^verbatim>\<open>error\<close> message or the result. Each
  message of the source is one constructor:
  \<^item> \<open>UnknownDoctor\<close>: "Unknown doctor_id: ..."
  \<^item> \<open>InvalidFormat\<close>: "Invalid start/end format. Use YYYY-MM-DDTHH:MM" (and its
    \<^verbatim>\<open>new_start/new_end\<close> and date variants)
  \<^item> \<open>EndNotAfterStart\<close>: "End time must be after start time."
  \<^item> \<open>InvalidEmail\<close>: "Invalid patient_email."
  \<^item> \<open>LeadTime n\<close>: "Appointments must be booked (rescheduled) at least n minutes in advance."
  \<^item> \<open>OutsideClinicHours\<close>: "Selected time is outside clinic hours for this doctor."
  \<^item> \<open>NoLongerAvailable\<close>: "Requested time is no longer available. Please pick another slot."
  \<^item> \<open>NotAListedSlot\<close>: "Requested time is not an available slot for this doctor/day. ..."
  \<^item> \<open>InsertError e\<close>, \<open>CancelError e\<close>, \<open>RescheduleError e\<close>: the provider's exception \<open>e\<close>
    behind "Google Calendar insert error: ", "Cancel error: ", "Reschedule error: "
  \<^item> \<open>Unauthorized\<close>: "Unauthorized: event does not belong to the requesting patient."
  \<^item> \<open>PatientEmailRequired\<close>: "patient_email is required"
  \<^item> \<open>ServiceError e\<close>: the message \<open>e\<close> of the exception that building the service raised
\<close>

datatype error =
    UnknownDoctor string
  | InvalidFormat
  | EndNotAfterStart
  | InvalidEmail
  | LeadTime int
  | OutsideClinicHours
  | NoLongerAvailable
  | NotAListedSlot
  | InsertError pystr
  | CancelError pystr
  | RescheduleError pystr
  | Unauthorized
  | PatientEmailRequired
  | ServiceError pystr

definition valid_email :: "pystr \<Rightarrow> bool" where
  \<comment> \<open>\<^verbatim>\<open>"@" in patient_email and "." in patient_email.split("@")[-1]\<close>; 64 is @, 46 the dot\<close>
  "valid_email patient_email =
     (64 \<in> set patient_email
      \<and> 46 \<in> set (rev (takeWhile (\<lambda>c. c \<noteq> 64) (rev patient_email))))"

fun str_nat :: "nat \<Rightarrow> string" where
  "str_nat n = (if n < 10 then [digit_char (int n)]
                else str_nat (n div 10) @ [digit_char (int (n mod 10))])"

declare str_nat.simps [simp del]

definition str_int :: "int \<Rightarrow> string" where
  "str_int i = (if i < 0 then CHR ''-'' # str_nat (nat (- i)) else str_nat (nat i))"

fun join_lines :: "pystr list \<Rightarrow> pystr" where
  "join_lines [] = []"
| "join_lines [l] = l"
| "join_lines (l # m # ls) = l @ [10] @ join_lines (m # ls)"

record booking =
  b_doctor_id :: string
  b_start :: "instant option"
  b_end :: "instant option"
  b_patient_name :: pystr
  b_patient_email :: pystr
  b_patient_phone :: "pystr option"
  b_patient_age :: "int option"
  b_patient_sex :: "pystr option"
  b_visit_mode :: "pystr option"
  b_condition :: "pystr option"
  b_send_invitations :: bool
  b_create_meet :: bool

definition or_unspecified :: "pystr option \<Rightarrow> pystr" where
  \<comment> \<open>\<^verbatim>\<open>x or 'unspecified'\<close>: an absent and an empty string are both false\<close>
  "or_unspecified x =
     (case x of None \<Rightarrow> lit ''unspecified'' | Some s \<Rightarrow> if s = [] then lit ''unspecified'' else s)"

definition truthy :: "pystr option \<Rightarrow> bool" where
  "truthy x = (case x of None \<Rightarrow> False | Some s \<Rightarrow> s \<noteq> [])"

definition visit_mode_of :: "str_ops \<Rightarrow> booking \<Rightarrow> pystr" where
  \<comment> \<open>\<^verbatim>\<open>vm = (visit_mode or "").lower().strip()\<close>\<close>
  "visit_mode_of ops b =
     str_strip ops (str_lower ops (case b_visit_mode b of None \<Rightarrow> [] | Some s \<Rightarrow> s))"

definition build_event :: "str_ops \<Rightarrow> doctor \<Rightarrow> booking \<Rightarrow> instant \<Rightarrow> instant \<Rightarrow> event" where
  "build_event ops doc b start_local end_local =
     (let vm = visit_mode_of ops b;
          description_lines =
            [lit ''Visit mode: '' @ or_unspecified (b_visit_mode b),
             lit ''Condition: '' @ or_unspecified (b_condition b),
             lit ''Created via Hospital MCP assistant.'',
             lit ''Patient: '' @ b_patient_name b @ lit '' <'' @ b_patient_email b @ lit ''>'']
            @ (if truthy (b_patient_phone b) then [lit ''Phone: '' @ the (b_patient_phone b)] else [])
            @ (case b_patient_age b of None \<Rightarrow> [] | Some a \<Rightarrow> [lit ''Age: '' @ lit (str_int a)])
            @ (if truthy (b_patient_sex b) then [lit ''Sex: '' @ the (b_patient_sex b)] else [])
      in \<lparr> ev_start = start_local,
           ev_end = end_local,
           summary = lit ''Consultation: '' @ name doc @ [32, 8596, 32] @ b_patient_name b,
           description = Some (join_lines description_lines),
           attendees = (if b_send_invitations b then [Some (email doc), Some (b_patient_email b)] else []),
           ev_location = (if vm = lit ''inperson'' \<and> \<not> (vm = lit ''online'' \<and> b_create_meet b)
                          then (if truthy (location doc) then location doc else None) else None) \<rparr>)"

fun contains :: "'a list \<Rightarrow> 'a list \<Rightarrow> bool" where
  \<comment> \<open>\<^verbatim>\<open>sub in s\<close>\<close>
  "contains sub [] = (sub = [])"
| "contains sub (c # s) = (prefix sub (c # s) \<or> contains sub s)"

text \<open>
  The commit of \<^verbatim>\<open>appointment_book_tool\<close>: one insert, and one more without the
  conference data when the provider's message names the conference. The notification
  e-mails that follow a successful insert change neither the calendar nor the verdict and are
  left out; the answer keeps the id of the created event.
\<close>

definition insert_event :: "gateway \<Rightarrow> doctor \<Rightarrow> event \<Rightarrow> bool \<Rightarrow> (error + string) \<times> gateway" where
  "insert_event g doc ev with_conference =
     (let stored = (\<lambda>eid. g\<lparr>events := (events g)((calendar_id doc, eid) \<mapsto> ev)\<rparr>)
      in case insert_reply g with_conference of
           Inr eid \<Rightarrow> (Inr eid, stored eid)
         | Inl msg \<Rightarrow>
             if contains (lit ''Invalid conference type'') msg \<or> contains (lit ''conferenceData'') msg
             then (case insert_reply g False of
                     Inr eid \<Rightarrow> (Inr eid, stored eid)
                   | Inl msg2 \<Rightarrow> (Inl (InsertError msg2), g))
             else (Inl (InsertError msg), g))"

text \<open>
  \<^verbatim>\<open>appointment_book_tool\<close>. \<open>b_start\<close> and \<open>b_end\<close> are the outcomes of
  \<^verbatim>\<open>datetime.fromisoformat\<close> (\<open>None\<close> when it raises). The slot size of the guard is
  \<^verbatim>\<open>int((end_local - start_local).total_seconds() // 60)\<close>, the whole minutes of the
  interval. The guard sits in a \<^verbatim>\<open>try\<close> whose handler is \<^verbatim>\<open>pass\<close>: when the recomputation
  raises, the booking goes on to the insert. A recomputation that never leaves the tiling
  loop does not come back to the tool (\<open>None\<close>).
\<close>

definition appointment_book_tool ::
  "str_ops \<Rightarrow> doctor list \<Rightarrow> gateway \<Rightarrow> clock \<Rightarrow> booking \<Rightarrow> ((error + string) \<times> gateway) option" where
  "appointment_book_tool ops db g clk b =
     (case find_doctor db (b_doctor_id b) of
        None \<Rightarrow> Some (Inl (UnknownDoctor (b_doctor_id b)), g)
      | Some doc \<Rightarrow>
     (case (b_start b, b_end b) of
        (None, _) \<Rightarrow> Some (Inl InvalidFormat, g)
      | (Some _, None) \<Rightarrow> Some (Inl InvalidFormat, g)
      | (Some start_local, Some end_local) \<Rightarrow>
          if end_local \<le> start_local then Some (Inl EndNotAfterStart, g)
          else if \<not> valid_email (b_patient_email b) then Some (Inl InvalidEmail, g)
          else if start_local < now_local clk + MIN_LEAD_MINUTES clk * us_per_minute
            then Some (Inl (LeadTime (MIN_LEAD_MINUTES clk)), g)
          else if \<not> within_schedule doc start_local end_local
            then Some (Inl OutsideClinicHours, g)
          else if slot_conflicts_with_calendar g doc start_local end_local
            then Some (Inl NoLongerAvailable, g)
          else
            (let commit = insert_event g doc (build_event ops doc b start_local end_local)
                            (visit_mode_of ops b = lit ''online'' \<and> b_create_meet b)
             in case compute_free_slots_for_date g clk doc (Some (date_of start_local))
                       ((end_local - start_local) div us_per_minute) of
                  None \<Rightarrow> None
                | Some (Inl x) \<Rightarrow> Some commit
                | Some (Inr (slots_for_day, _)) \<Rightarrow>
                    if strftime_HM start_local \<notin> set slots_for_day
                    then Some (Inl NotAListedSlot, g)
                    else Some commit)))"

section \<open>Appointment lifecycle\<close>

fun attendee_loop :: "str_ops \<Rightarrow> pystr \<Rightarrow> pystr option list \<Rightarrow> bool" where
  "attendee_loop ops pe [] = False"
| "attendee_loop ops pe (a # as) =
     (if str_strip ops (str_lower ops (case a of None \<Rightarrow> [] | Some e \<Rightarrow> e)) = pe then True
      else attendee_loop ops pe as)"

definition event_contains_patient :: "str_ops \<Rightarrow> event \<Rightarrow> pystr \<Rightarrow> bool" where
  "event_contains_patient ops ev patient_email =
     (if patient_email = [] then False
      else (let pe = str_strip ops (str_lower ops patient_email)
            in if attendee_loop ops pe (attendees ev) then True
               else contains pe (str_lower ops (case description ev of None \<Rightarrow> [] | Some d \<Rightarrow> d))))"

text \<open>
  \<^verbatim>\<open>cancel_appointment_tool\<close> and \<^verbatim>\<open>reschedule_tool\<close> return their answer and the
  calendar they leave. Every exception inside their \<^verbatim>\<open>try\<close> becomes the "Cancel error" or
  "Reschedule error" answer. The flag \<^verbatim>\<open>notify_attendees\<close> only adds \<^verbatim>\<open>sendUpdates\<close> to the
  delete call and is left out.
\<close>

definition cancel_appointment_tool ::
  "str_ops \<Rightarrow> doctor list \<Rightarrow> gateway \<Rightarrow> string \<Rightarrow> string \<Rightarrow> pystr \<Rightarrow> (error + unit) \<times> gateway" where
  "cancel_appointment_tool ops db g did event_id patient_email =
     (case find_doctor db did of
        None \<Rightarrow> (Inl (UnknownDoctor did), g)
      | Some d \<Rightarrow>
          (case events g (calendar_id d, event_id) of
             None \<Rightarrow> (Inl (CancelError (get_error g)), g)
           | Some ev \<Rightarrow>
               if \<not> event_contains_patient ops ev patient_email then (Inl Unauthorized, g)
               else (case write_error g of
                       Some e \<Rightarrow> (Inl (CancelError e), g)
                     | None \<Rightarrow> (Inr (), g\<lparr>events := (events g)((calendar_id d, event_id) := None)\<rparr>))))"

definition reschedule_tool ::
  "str_ops \<Rightarrow> doctor list \<Rightarrow> gateway \<Rightarrow> clock \<Rightarrow> string \<Rightarrow> string
     \<Rightarrow> instant option \<Rightarrow> instant option \<Rightarrow> pystr \<Rightarrow> (error + unit) \<times> gateway" where
  "reschedule_tool ops db g clk did event_id new_start new_end patient_email =
     (case find_doctor db did of
        None \<Rightarrow> (Inl (UnknownDoctor did), g)
      | Some d \<Rightarrow>
     (case (new_start, new_end) of
        (None, _) \<Rightarrow> (Inl InvalidFormat, g)
      | (Some _, None) \<Rightarrow> (Inl InvalidFormat, g)
      | (Some start_local, Some end_local) \<Rightarrow>
          if start_local < now_local clk + MIN_LEAD_MINUTES clk * us_per_minute
            then (Inl (LeadTime (MIN_LEAD_MINUTES clk)), g)
          else if \<not> within_schedule d start_local end_local then (Inl OutsideClinicHours, g)
          else if slot_conflicts_with_calendar g d start_local end_local
            then (Inl NoLongerAvailable, g)
          else
            (case events g (calendar_id d, event_id) of
               None \<Rightarrow> (Inl (RescheduleError (get_error g)), g)
             | Some ev \<Rightarrow>
                 if \<not> event_contains_patient ops ev patient_email then (Inl Unauthorized, g)
                 else (case write_error g of
                         Some e \<Rightarrow> (Inl (RescheduleError e), g)
                       | None \<Rightarrow>
                           (Inr (),
                            g\<lparr>events := (events g)((calendar_id d, event_id) \<mapsto>
                                 ev\<lparr>ev_start := start_local, ev_end := end_local\<rparr>)\<rparr>)))))"

text \<open>
  \<^verbatim>\<open>list_appointments_tool\<close>. An entry of the answer names the doctor, the event id, the start,
  the end and the summary of an event; the attendees are not given out. A calendar whose
  listing raises is skipped. \<^verbatim>\<open>now_local + timedelta(days=window_days)\<close> is outside any
  handler.
\<close>

record appointment =
  a_doctor_id :: string
  a_event_id :: string
  a_start :: instant
  a_end :: instant
  a_summary :: pystr

fun events_loop :: "str_ops \<Rightarrow> doctor \<Rightarrow> pystr \<Rightarrow> (string \<times> event) list \<Rightarrow> appointment list" where
  "events_loop ops d patient_email [] = []"
| "events_loop ops d patient_email ((eid, ev) # items) =
     (if \<not> event_contains_patient ops ev patient_email then events_loop ops d patient_email items
      else \<lparr> a_doctor_id = doctor_id d, a_event_id = eid, a_start = ev_start ev,
             a_end = ev_end ev, a_summary = summary ev \<rparr>
           # events_loop ops d patient_email items)"

fun calendars_loop ::
  "str_ops \<Rightarrow> gateway \<Rightarrow> pystr \<Rightarrow> instant \<Rightarrow> instant \<Rightarrow> doctor list \<Rightarrow> appointment list" where
  "calendars_loop ops g patient_email time_min time_max [] = []"
| "calendars_loop ops g patient_email time_min time_max (d # calendars) =
     (case listing g (calendar_id d) time_min time_max of
        None \<Rightarrow> calendars_loop ops g patient_email time_min time_max calendars
      | Some items \<Rightarrow>
          events_loop ops d patient_email items
            @ calendars_loop ops g patient_email time_min time_max calendars)"

definition list_appointments_tool ::
  "str_ops \<Rightarrow> doctor list \<Rightarrow> gateway \<Rightarrow> clock \<Rightarrow> string option \<Rightarrow> pystr option \<Rightarrow> int
     \<Rightarrow> exn + (error + appointment list)" where
  "list_appointments_tool ops db g clk did patient_email window_days =
     (case patient_email of
        None \<Rightarrow> Inr (Inl PatientEmailRequired)
      | Some pe \<Rightarrow>
          if pe = [] then Inr (Inl PatientEmailRequired)
          else (case service_error g of
                  Some e \<Rightarrow> Inr (Inl (ServiceError e))
                | None \<Rightarrow>
                    (case (case did of
                             None \<Rightarrow> Inr db
                           | Some i \<Rightarrow>
                               if i = [] then Inr db
                               else (case find_doctor db i of
                                       None \<Rightarrow> Inl (UnknownDoctor i)
                                     | Some d \<Rightarrow> Inr [d])) of
                       Inl err \<Rightarrow> Inr (Inl err)
                     | Inr calendars \<Rightarrow>
                         (case timedelta_days window_days of
                            Inl x \<Rightarrow> Inl x
                          | Inr delta \<Rightarrow>
                              (case add_timedelta (now_local clk) delta of
                                 Inl x \<Rightarrow> Inl x
                               | Inr time_max \<Rightarrow>
                                   Inr (Inr (calendars_loop ops g pe (now_local clk) time_max
                                               calendars)))))))"

section \<open>The availability tool\<close>

datatype date_arg = Blank | Bad | Day day

datatype availability =
    Failed error
  | Slots "string list" "meta option"
  | Dates "(day \<times> string list) list"

text \<open>
  The loop over the days of a range. \<^verbatim>\<open>day += timedelta(days=1)\<close> raises past the last
  date.
\<close>

function range_loop ::
  "gateway \<Rightarrow> clock \<Rightarrow> doctor \<Rightarrow> int \<Rightarrow> day \<Rightarrow> day \<Rightarrow> (day \<times> string list) list
     \<Rightarrow> (exn + (day \<times> string list) list) option" where
  "range_loop g clk doc slot_minutes d end_d result_map =
     (if d \<le> end_d
      then (case compute_free_slots_for_date g clk doc (Some d) slot_minutes of
              None \<Rightarrow> None
            | Some (Inl x) \<Rightarrow> Some (Inl x)
            | Some (Inr (slots, _)) \<Rightarrow>
                if d + 1 > date_max then Some (Inl OverflowError)
                else range_loop g clk doc slot_minutes (d + 1) end_d (result_map @ [(d, slots)]))
      else Some (Inr result_map))"
  by pat_completeness auto
termination
  by (relation "measure (\<lambda>(g, clk, doc, slot_minutes, d, end_d, result_map). nat (end_d - d + 1))") auto

declare range_loop.simps [simp del]

text \<open>
  \<^verbatim>\<open>availability_tool\<close>. For \<open>date\<close>, \<open>Blank\<close> is a missing or blank string (today is
  taken) and \<open>Bad\<close> a string that \<^verbatim>\<open>datetime.fromisoformat\<close> refuses; for \<open>end_date\<close>,
  \<open>Blank\<close> is \<^verbatim>\<open>None\<close> or the empty string (a single-date query). No handler encloses the
  computation of a day: what it raises, the tool raises.
\<close>

definition availability_tool ::
  "doctor list \<Rightarrow> gateway \<Rightarrow> clock \<Rightarrow> string \<Rightarrow> date_arg \<Rightarrow> int \<Rightarrow> date_arg
     \<Rightarrow> (exn + availability) option" where
  "availability_tool db g clk did date slot_minutes end_date =
     (case find_doctor db did of
        None \<Rightarrow> Some (Inr (Failed (UnknownDoctor did)))
      | Some doc \<Rightarrow>
          (let date' = (case date of Blank \<Rightarrow> Some (date_of (now_local clk))
                        | Bad \<Rightarrow> None | Day d \<Rightarrow> Some d)
           in case end_date of
                Blank \<Rightarrow>
                  (case compute_free_slots_for_date g clk doc date' slot_minutes of
                     None \<Rightarrow> None
                   | Some (Inl x) \<Rightarrow> Some (Inl x)
                   | Some (Inr (slots, meta)) \<Rightarrow> Some (Inr (Slots slots meta)))
              | Bad \<Rightarrow> Some (Inr (Failed InvalidFormat))
              | Day e \<Rightarrow>
                  (case date' of
                     None \<Rightarrow> Some (Inr (Failed InvalidFormat))
                   | Some s \<Rightarrow>
                       (case range_loop g clk doc slot_minutes (min s e) (max s e) [] of
                          None \<Rightarrow> None
                        | Some (Inl x) \<Rightarrow> Some (Inl x)
                        | Some (Inr result_map) \<Rightarrow> Some (Inr (Dates result_map))))))"

section \<open>The specification's tiling\<close>

text \<open>
  Following the specification's words (4.1): tiling starts exactly at the window's start
  and advances by the slot duration; a candidate is included only if it fits entirely within
  the window (\<open>start + duration \<le> window_end\<close>). A window that does not parse gives no
  candidate. A duration is a positive number of minutes, so no candidate beyond the number of
  whole minutes of the window can fit, which bounds the enumeration.
\<close>

definition window_slots :: "day \<Rightarrow> int \<Rightarrow> window \<Rightarrow> (instant \<times> instant) list" where
  "window_slots d n w =
     (case w of
        None \<Rightarrow> []
      | Some (start_t, end_t) \<Rightarrow>
          map (\<lambda>k. (combine d start_t + int k * (n * us_per_minute),
                    combine d start_t + int k * (n * us_per_minute) + n * us_per_minute))
            (filter (\<lambda>k. combine d start_t + int k * (n * us_per_minute) + n * us_per_minute
                          \<le> combine d end_t)
               [0..<nat ((combine d end_t - combine d start_t) div us_per_minute)]))"

text \<open>
  The last sum the loop forms for a window: the start of the candidate after the last one
  that fits, plus the duration.
\<close>

definition last_probe :: "day \<Rightarrow> int \<Rightarrow> window \<Rightarrow> instant" where
  "last_probe d n w =
     (case w of
        None \<Rightarrow> datetime_min
      | Some (start_t, end_t) \<Rightarrow>
          combine d start_t + (int (length (window_slots d n w)) + 1) * (n * us_per_minute))"

definition in_range :: "day \<Rightarrow> int \<Rightarrow> window \<Rightarrow> bool" where
  \<comment> \<open>the sums the loop forms for the window are datetimes\<close>
  "in_range d n w =
     (case w of None \<Rightarrow> True
      | Some (s, e) \<Rightarrow> datetime_min \<le> combine d s \<and> last_probe d n w \<le> datetime_max)"

definition tiles :: "instant \<Rightarrow> int \<Rightarrow> instant \<Rightarrow> (instant \<times> instant) list" where
  "tiles c step e = map (\<lambda>k. (c + int k * step, c + int k * step + step)) [0..<nat ((e - c) div step)]"

definition no_overlap :: "instant \<times> instant \<Rightarrow> instant \<times> instant \<Rightarrow> bool" where
  \<comment> \<open>the negation of the half-open overlap test of \<^verbatim>\<open>_overlaps\<close>\<close>
  "no_overlap a b = (\<not> (fst a < snd b \<and> snd a > fst b))"

definition windows_disjoint :: "window \<Rightarrow> window \<Rightarrow> bool" where
  "windows_disjoint w1 w2 =
     (case (w1, w2) of (Some (s1, e1), Some (s2, e2)) \<Rightarrow> \<not> (s1 < e2 \<and> e1 > s2) | _ \<Rightarrow> True)"

text \<open>
  Ownership as claim C10 words it, with the one change that the attendee's e-mail is
  normalised like the patient's: the patient's e-mail, lowercased and trimmed, equals the
  lowercased and trimmed e-mail of some attendee, or occurs as a substring of the lowercased
  description.
\<close>

definition names_patient :: "str_ops \<Rightarrow> event \<Rightarrow> pystr \<Rightarrow> bool" where
  "names_patient ops ev patient_email =
     ((\<exists>a \<in> set (attendees ev).
         str_strip ops (str_lower ops (case a of None \<Rightarrow> [] | Some x \<Rightarrow> x))
           = str_strip ops (str_lower ops patient_email))
      \<or> sublist (str_strip ops (str_lower ops patient_email))
           (str_lower ops (case description ev of None \<Rightarrow> [] | Some d \<Rightarrow> d)))"

section \<open>A clinic for the examples\<close>

text \<open>
  Doctor D of the specification's example: Tuesday 11:00-13:00. Tuesday 2025-01-07 has
  ordinal 739258. \<open>hm h m\<close> is the time of day \<open>h:m\<close>, \<open>wall d h m\<close> that time on day \<open>d\<close>.
\<close>

definition tuesday :: day where
  "tuesday = 739258"

definition hm :: "int \<Rightarrow> int \<Rightarrow> int" where
  "hm h m = (h * 60 + m) * us_per_minute"

definition wall :: "day \<Rightarrow> int \<Rightarrow> int \<Rightarrow> instant" where
  "wall d h m = combine d (hm h m)"

definition doctor_D :: doctor where
  "doctor_D = \<lparr> doctor_id = ''D'', name = lit ''Dr D'',
                 weekly_schedule = [''Tue'' \<mapsto> [Some (hm 11 0, hm 13 0)]],
                 calendar_id = ''cal-D'', email = lit ''d@clinic.example'', location = None \<rparr>"

definition booked_event :: event where
  "booked_event = \<lparr> ev_start = wall tuesday 12 0, ev_end = wall tuesday 12 30,
                     summary = lit ''Consultation'',
                     description = Some (lit ''Patient: Pat <pat@mail.example>''),
                     attendees = [Some (lit ''Pat@Mail.Example'')], ev_location = None \<rparr>"

text \<open>An event that names the patient only among its attendees, in another spelling.\<close>

definition invited_event :: event where
  "invited_event = \<lparr> ev_start = wall tuesday 12 0, ev_end = wall tuesday 12 30,
                      summary = lit ''Consultation'', description = None,
                      attendees = [Some (lit ''Pat@Mail.Example '')], ev_location = None \<rparr>"

definition calendar_answering :: "(instant \<times> instant) list option \<Rightarrow> gateway" where
  "calendar_answering reply =
     \<lparr> freebusy = (\<lambda>cal time_min time_max. reply),
       events = [(''cal-D'', ''ev1'') \<mapsto> booked_event],
       get_error = lit ''Not Found'', write_error = None,
       insert_reply = (\<lambda>with_conference. Inr ''ev2''),
       listing = (\<lambda>cal time_min time_max.
                    if cal = ''cal-D'' then Some [(''ev1'', booked_event), (''ev3'', invited_event)]
                    else None),
       service_error = None \<rparr>"

definition clock_at :: "instant \<Rightarrow> clock" where
  "clock_at t = \<lparr> now_local = t, MIN_LEAD_MINUTES = 0 \<rparr>"

text \<open>
  \<^verbatim>\<open>str.lower\<close> and \<^verbatim>\<open>str.strip\<close> as they act on text of ASCII letters, digits, punctuation
  and blanks, for the examples.
\<close>

definition ascii_lower :: "pystr \<Rightarrow> pystr" where
  "ascii_lower s = map (\<lambda>c. if 65 \<le> c \<and> c \<le> 90 then c + 32 else c) s"

definition ascii_strip :: "pystr \<Rightarrow> pystr" where
  "ascii_strip s = rev (dropWhile (\<lambda>c. c = 32) (rev (dropWhile (\<lambda>c. c = 32) s)))"

definition ascii_ops :: str_ops where
  "ascii_ops = \<lparr> str_lower = ascii_lower, str_strip = ascii_strip \<rparr>"

text \<open>A day with a morning and an afternoon window and an entry that does not parse.\<close>

definition split_day :: "window list" where
  "split_day = [Some (hm 11 0, hm 12 0), None, Some (hm 14 0, hm 15 0)]"

definition split_day_slots :: "(instant \<times> instant) list" where
  "split_day_slots =
     [(wall tuesday 11 0, wall tuesday 11 30), (wall tuesday 11 30, wall tuesday 12 0),
      (wall tuesday 14 0, wall tuesday 14 30), (wall tuesday 14 30, wall tuesday 15 0)]"

text \<open>A booking request for doctor D by the patient Pat.\<close>

definition request_D :: "instant \<Rightarrow> instant \<Rightarrow> pystr \<Rightarrow> booking" where
  "request_D s e mail =
     \<lparr> b_doctor_id = ''D'', b_start = Some s, b_end = Some e, b_patient_name = lit ''Pat'',
       b_patient_email = mail, b_patient_phone = None, b_patient_age = None,
       b_patient_sex = None, b_visit_mode = None, b_condition = None,
       b_send_invitations = False, b_create_meet = False \<rparr>"

text \<open>
  The last day of the calendar, 9999-12-31, is a Friday. Doctor F sees patients on Fridays
  from 00:00 to 23:00.
\<close>

definition last_friday :: day where
  "last_friday = 3652059"

definition doctor_F :: doctor where
  "doctor_F = \<lparr> doctor_id = ''F'', name = lit ''Dr F'',
                 weekly_schedule = [''Fri'' \<mapsto> [Some (hm 0 0, hm 23 0)]],
                 calendar_id = ''cal-F'', email = lit ''f@clinic.example'', location = None \<rparr>"

section \<open>Arithmetic of the tiling loop\<close>

lemma plus_minutes_Inr:
  assumes "plus_minutes c n = Inr r"
  shows "r = c + n * us_per_minute" "datetime_min \<le> r" "r \<le> datetime_max"
    "n \<le> 999999999 * 1440 + 1439"
  using assms
  by (auto simp: plus_minutes_def timedelta_minutes_def add_timedelta_def split: if_splits)

lemma plus_minutes_in_range:
  assumes "- (999999999 * 1440) \<le> n" "n \<le> 999999999 * 1440 + 1439"
    "datetime_min \<le> c + n * us_per_minute" "c + n * us_per_minute \<le> datetime_max"
  shows "plus_minutes c n = Inr (c + n * us_per_minute)"
  using assms by (simp add: plus_minutes_def timedelta_minutes_def add_timedelta_def)

lemma tiles_Nil: "0 < step \<Longrightarrow> e < c + step \<Longrightarrow> tiles c step e = []"
proof -
  assume a: "0 < step" "e < c + step"
  then have "(e - c) div step \<le> 0"
    by (smt (verit) div_pos_pos_trivial div_nonpos_pos_le0 zdiv_mono1)
  then show ?thesis by (simp add: tiles_def)
qed

lemma mult_le_div_iff:
  fixes n :: int
  assumes "0 < n"
  shows "a * n \<le> x \<longleftrightarrow> a \<le> x div n"
proof
  assume "a * n \<le> x"
  then have "(a * n) div n \<le> x div n" using assms by (rule zdiv_mono1)
  then show "a \<le> x div n" using assms by simp
next
  assume a: "a \<le> x div n"
  have "a * n \<le> (x div n) * n" using a assms by (simp add: mult_right_mono)
  moreover have "0 \<le> x mod n" using assms by simp
  moreover have "(x div n) * n + x mod n = x" by simp
  ultimately show "a * n \<le> x" by linarith
qed

lemma fits_iff:
  assumes "0 < step"
  shows "c + int k * step + step \<le> e \<longleftrightarrow> k < nat ((e - c) div step)"
proof -
  have "c + int k * step + step \<le> e \<longleftrightarrow> (int k + 1) * step \<le> e - c"
    by (simp add: algebra_simps)
  also have "\<dots> \<longleftrightarrow> int k + 1 \<le> (e - c) div step"
    using assms by (rule mult_le_div_iff)
  also have "\<dots> \<longleftrightarrow> k < nat ((e - c) div step)" by linarith
  finally show ?thesis .
qed

lemma tiles_Cons:
  assumes "0 < step" "c + step \<le> e"
  shows "tiles c step e = (c, c + step) # tiles (c + step) step e"
proof -
  have d: "(e - (c + step)) div step = (e - c) div step - 1"
    using assms by (smt (verit) div_add_self2)
  have "0 < nat ((e - c) div step)"
    using fits_iff[OF assms(1), of c 0 e] assms(2) by simp
  then obtain m where m: "nat ((e - c) div step) = Suc m" by (cases "nat ((e - c) div step)") auto
  then have m': "nat ((e - (c + step)) div step) = m" using d by linarith
  have "tiles c step e = (c, c + step) # map (\<lambda>k. (c + int (Suc k) * step, c + int (Suc k) * step + step)) [0..<m]"
    unfolding tiles_def m by (simp add: upt_conv_Cons map_Suc_upt[symmetric] del: upt_Suc)
  moreover have "tiles (c + step) step e = map (\<lambda>k. (c + int (Suc k) * step, c + int (Suc k) * step + step)) [0..<m]"
    unfolding tiles_def m' by (simp add: algebra_simps)
  ultimately show ?thesis by simp
qed

lemma length_tiles: "length (tiles c step e) = nat ((e - c) div step)"
  by (simp add: tiles_def)

lemma tile_returns:
  assumes "tile c n e acc = Some (Inr r)"
  shows "(0 < n \<or> e < c + n * us_per_minute) \<and> (0 < n \<longrightarrow> r = acc @ tiles c (n * us_per_minute) e)"
proof -
  have "\<forall>r. Inr r = y \<longrightarrow> (0 < n \<or> e < c + n * us_per_minute)
            \<and> (0 < n \<longrightarrow> r = acc @ tiles c (n * us_per_minute) e)"
    if "tile c n e acc = Some y" for y
    using that
  proof (rule tile.raw_induct[where P = "\<lambda>c n e acc y. \<forall>r. Inr r = y \<longrightarrow>
            (0 < n \<or> e < c + n * us_per_minute)
            \<and> (0 < n \<longrightarrow> r = acc @ tiles c (n * us_per_minute) e)", rotated 1], goal_cases)
    case (1 f c n e acc y)
    show ?case
    proof (cases "plus_minutes c n")
      case (Inl x)
      with 1(2) show ?thesis by auto
    next
      case (Inr nxt)
      note p = plus_minutes_Inr[OF Inr]
      show ?thesis
      proof (cases "nxt \<le> e")
        case True
        with 1(2) Inr have rec: "f nxt n e (acc @ [(c, nxt)]) = Some y" by simp
        from 1(1)[OF rec] have ih: "\<forall>r. Inr r = y \<longrightarrow> (0 < n \<or> e < nxt + n * us_per_minute)
            \<and> (0 < n \<longrightarrow> r = (acc @ [(c, nxt)]) @ tiles nxt (n * us_per_minute) e)" .
        show ?thesis
        proof (intro allI impI)
          fix r assume r: "Inr r = y"
          from ih r have a: "0 < n \<or> e < nxt + n * us_per_minute"
            and b: "0 < n \<longrightarrow> r = (acc @ [(c, nxt)]) @ tiles nxt (n * us_per_minute) e" by blast+
          from a True p(1) have pos: "0 < n" by (cases "0 < n") auto
          then have "tiles c (n * us_per_minute) e = (c, nxt) # tiles nxt (n * us_per_minute) e"
            using tiles_Cons[of "n * us_per_minute" c e] True p(1) by simp
          with b pos show "(0 < n \<or> e < c + n * us_per_minute)
             \<and> (0 < n \<longrightarrow> r = acc @ tiles c (n * us_per_minute) e)" by simp
        qed
      next
        case False
        with 1(2) Inr have y: "y = Inr acc" by simp
        from False p(1) have lt: "e < c + n * us_per_minute" by simp
        show ?thesis
        proof (intro allI impI)
          fix r assume "Inr r = y"
          with y have "r = acc" by simp
          moreover have "0 < n \<longrightarrow> tiles c (n * us_per_minute) e = []"
            using tiles_Nil[of "n * us_per_minute" e c] lt by simp
          ultimately show "(0 < n \<or> e < c + n * us_per_minute)
             \<and> (0 < n \<longrightarrow> r = acc @ tiles c (n * us_per_minute) e)" using lt by simp
        qed
      qed
    qed
  qed
  from this[OF assms] show ?thesis by blast
qed

lemma tile_pos:
  assumes "0 < n" and "n \<le> 999999999 * 1440 + 1439" and "datetime_min \<le> c"
    and "c + (int (length (tiles c (n * us_per_minute) e)) + 1) * (n * us_per_minute) \<le> datetime_max"
  shows "tile c n e acc = Some (Inr (acc @ tiles c (n * us_per_minute) e))"
  using assms(3,4)
proof (induction "length (tiles c (n * us_per_minute) e)" arbitrary: c acc)
  case 0
  then have len: "length (tiles c (n * us_per_minute) e) = 0" by simp
  then have "\<not> c + n * us_per_minute \<le> e"
    using fits_iff[of "n * us_per_minute" c 0 e] assms(1) by (simp add: length_tiles)
  moreover have "plus_minutes c n = Inr (c + n * us_per_minute)"
    using assms(1,2) 0(2,3) len by (intro plus_minutes_in_range) auto
  ultimately show ?case using len by (subst tile.simps) simp
next
  case (Suc m)
  let ?step = "n * us_per_minute"
  have step: "0 < ?step" using assms(1) by simp
  from Suc(2) have "0 < nat ((e - c) div ?step)" by (simp add: length_tiles)
  then have le: "c + ?step \<le> e" using fits_iff[OF step, of c 0 e] by simp
  note tc = tiles_Cons[OF step le]
  have m: "m = length (tiles (c + ?step) ?step e)" using Suc(2) tc by simp
  have pm: "plus_minutes c n = Inr (c + ?step)"
  proof (intro plus_minutes_in_range)
    show "c + ?step \<le> datetime_max"
      using Suc(4) step by (smt (verit) mult_le_cancel_right1 of_nat_0_le_iff mult_right_mono)
  qed (use assms(1,2) Suc(3) step in auto)
  have range': "c + ?step + (int (length (tiles (c + ?step) ?step e)) + 1) * ?step \<le> datetime_max"
  proof -
    have len: "int (length (tiles c ?step e)) = int (length (tiles (c + ?step) ?step e)) + 1"
      using tc by simp
    have "c + ?step + (int (length (tiles (c + ?step) ?step e)) + 1) * ?step
          = c + (int (length (tiles (c + ?step) ?step e)) + 1 + 1) * ?step"
      by (simp add: algebra_simps)
    with Suc(4) show ?thesis unfolding len by simp
  qed
  have "tile c n e acc = tile (c + ?step) n e (acc @ [(c, c + ?step)])"
    using le pm by (subst tile.simps) simp
  also have "\<dots> = Some (Inr ((acc @ [(c, c + ?step)]) @ tiles (c + ?step) ?step e))"
    using Suc(1)[OF m _ range'] Suc(3) step by simp
  finally show ?case using tc by simp
qed


lemma tile_zero_diverges:
  assumes "c \<le> e" and "datetime_min \<le> c" and "c \<le> datetime_max"
  shows "tile c 0 e acc = None"
proof (cases "tile c 0 e acc")
  case None
  then show ?thesis .
next
  case (Some y)
  have "\<not> (n = 0 \<and> c \<le> e \<and> datetime_min \<le> c \<and> c \<le> datetime_max)"
    if "tile c n e acc = Some y" for c n e acc y
    using that
  proof (rule tile.raw_induct[where P = "\<lambda>c n e acc y.
           \<not> (n = 0 \<and> c \<le> e \<and> datetime_min \<le> c \<and> c \<le> datetime_max)", rotated 1], goal_cases)
    case (1 f c n e acc y)
    show ?case
    proof
      assume a: "n = 0 \<and> c \<le> e \<and> datetime_min \<le> c \<and> c \<le> datetime_max"
      then have "plus_minutes c n = Inr c"
        by (simp add: plus_minutes_def timedelta_minutes_def add_timedelta_def)
      with 1(2) a have "f c n e (acc @ [(c, c)]) = Some y" by simp
      from 1(1)[OF this] a show False by simp
    qed
  qed
  from this[OF Some] assms show ?thesis by simp
qed

lemma filter_upt_prefix:
  assumes "m \<le> N"
  shows "filter (\<lambda>k. k < m) [0..<N] = [0..<m]"
proof -
  have "[0..<N] = [0..<m] @ [m..<N]"
    using assms by (metis le_add_diff_inverse upt_add_eq_append zero_le)
  then show ?thesis by (simp add: filter_empty_conv)
qed

lemma nat_div_mono_divisor:
  fixes x :: int
  assumes "0 < a" "a \<le> b"
  shows "nat (x div b) \<le> nat (x div a)"
proof (cases "0 \<le> x")
  case True
  then have "x div b \<le> x div a" using assms by (intro zdiv_mono2) auto
  then show ?thesis by simp
next
  case False
  then have "x div b \<le> 0" using assms by (intro div_nonpos_pos_le0) auto
  then show ?thesis by simp
qed

lemma window_slots_tiles:
  assumes "0 < n"
  shows "window_slots d n (Some (s, e)) = tiles (combine d s) (n * us_per_minute) (combine d e)"
proof -
  have "nat ((combine d e - combine d s) div (n * us_per_minute))
          \<le> nat ((combine d e - combine d s) div us_per_minute)"
    using assms by (intro nat_div_mono_divisor) auto
  moreover have "0 < n * us_per_minute" using assms by simp
  ultimately show ?thesis
    by (simp add: window_slots_def tiles_def fits_iff filter_upt_prefix)
qed

lemma overlaps_iff:
  "overlaps s e busy \<longleftrightarrow> (\<exists>(b_start, b_end) \<in> set busy. s < b_end \<and> e > b_start)"
  by (induction busy) auto

lemma free_loop_filter:
  "free_loop is_today cutoff busy rs =
     map (strftime_HM \<circ> fst)
       (filter (\<lambda>(s, e). \<not> (is_today \<and> s < cutoff) \<and> \<not> overlaps s e busy) rs)"
  by (induction is_today cutoff busy rs rule: free_loop.induct) simp_all

lemma windows_loop_pos:
  assumes "0 < n" and "n \<le> 999999999 * 1440 + 1439"
    and "\<forall>w \<in> set ws. in_range d n w"
  shows "\<exists>ea la. windows_loop d n ws (rs, ea0, la0)
            = Some (Inr (rs @ concat (map (window_slots d n) ws), ea, la))
          \<and> (ea = None \<longleftrightarrow> ea0 = None \<and> (\<forall>w \<in> set ws. w = None))
          \<and> (la = None \<longleftrightarrow> la0 = None \<and> (\<forall>w \<in> set ws. w = None))"
  using assms(3)
proof (induction ws arbitrary: rs ea0 la0)
  case Nil
  then show ?case by simp
next
  case (Cons w ws)
  show ?case
  proof (cases w)
    case None
    with Cons.IH[of rs ea0 la0] Cons.prems show ?thesis by (simp add: window_slots_def)
  next
    case (Some p)
    obtain s e where p: "p = (s, e)" by (cases p)
    define ea1 where "ea1 = (case ea0 of None \<Rightarrow> Some (combine d s)
                       | Some x \<Rightarrow> if combine d s < x then Some (combine d s) else Some x)"
    define la1 where "la1 = (case la0 of None \<Rightarrow> Some (combine d e)
                     | Some l \<Rightarrow> if combine d e > l then Some (combine d e) else Some l)"
    have ne: "ea1 \<noteq> None" "la1 \<noteq> None"
      by (auto simp: ea1_def la1_def split: option.splits)
    from Cons.prems Some p have r: "datetime_min \<le> combine d s"
      "combine d s + (int (length (tiles (combine d s) (n * us_per_minute) (combine d e))) + 1)
          * (n * us_per_minute) \<le> datetime_max"
      by (simp_all add: in_range_def last_probe_def window_slots_tiles[OF assms(1)])
    have step: "windows_loop d n (w # ws) (rs, ea0, la0)
                = windows_loop d n ws (rs @ window_slots d n w, ea1, la1)"
      using Some p
      by (simp add: tile_pos[OF assms(1,2) r] window_slots_tiles[OF assms(1)] ea1_def la1_def Let_def)
    from Cons.IH[of "rs @ window_slots d n w" ea1 la1] Cons.prems ne Some show ?thesis
      unfolding step by auto
  qed
qed

lemma windows_loop_all_None:
  assumes "\<forall>w \<in> set ws. w = None"
  shows "windows_loop d n ws st = Some (Inr st)"
  using assms by (induction ws) auto

lemma windows_loop_returns_only_if:
  assumes "windows_loop d n ws st = Some (Inr st')"
    and "\<forall>s e. Some (s, e) \<in> set ws \<longrightarrow> s \<le> e"
  shows "0 < n \<or> (\<forall>w \<in> set ws. w = None)"
  using assms
proof (induction ws arbitrary: st)
  case Nil
  then show ?case by simp
next
  case (Cons w ws)
  show ?case
  proof (cases w)
    case None
    with Cons show ?thesis by auto
  next
    case (Some p)
    obtain s e where p: "p = (s, e)" by (cases p)
    obtain rs ea la where st: "st = (rs, ea, la)" by (cases st)
    from Cons.prems(1) Some p st obtain r where
      r: "tile (combine d s) n (combine d e) rs = Some (Inr r)"
      by (auto simp: Let_def split: option.splits sum.splits)
    from Cons.prems(2) Some p have "s \<le> e" by auto
    with tile_returns[OF r] show ?thesis
      by (cases "0 < n") (auto simp: combine_def not_less mult_le_0_iff)
  qed
qed

lemma windows_loop_returns:
  assumes "windows_loop d n ws (rs, ea0, la0) = Some (Inr (rs', ea, la))" and "0 < n"
  shows "rs' = rs @ concat (map (window_slots d n) ws)"
  using assms(1)
proof (induction ws arbitrary: rs ea0 la0)
  case Nil
  then show ?case by simp
next
  case (Cons w ws)
  show ?case
  proof (cases w)
    case None
    with Cons show ?thesis by (simp add: window_slots_def)
  next
    case (Some p)
    obtain s e where p: "p = (s, e)" by (cases p)
    from Cons.prems Some p obtain r ea1 la1 where
      r: "tile (combine d s) n (combine d e) rs = Some (Inr r)"
      and rest: "windows_loop d n ws (r, ea1, la1) = Some (Inr (rs', ea, la))"
      by (auto simp: Let_def split: option.splits sum.splits)
    from tile_returns[OF r] assms(2)
    have "r = rs @ window_slots d n w" by (simp add: window_slots_tiles Some p)
    with Cons.IH[OF rest] show ?thesis by simp
  qed
qed

section \<open>Evaluating the example clinic\<close>

lemma combine_cmp:
  "combine d a < combine d b \<longleftrightarrow> a < b"
  "combine d a \<le> combine d b \<longleftrightarrow> a \<le> b"
  "combine d a = combine d b \<longleftrightarrow> a = b"
  by (simp_all add: combine_def)

lemma wall_cmp:
  "wall d h m < wall d h' m' \<longleftrightarrow> h * 60 + m < h' * 60 + m'"
  "wall d h m \<le> wall d h' m' \<longleftrightarrow> h * 60 + m \<le> h' * 60 + m'"
  "wall d h m = wall d h' m' \<longleftrightarrow> h * 60 + m = h' * 60 + m'"
  unfolding wall_def hm_def combine_def by auto

lemma date_of_combine:
  assumes "0 \<le> t" and "t < us_per_day"
  shows "date_of (combine d t) = d"
  using assms by (simp add: date_of_def combine_def div_pos_pos_trivial)

lemma date_of_wall:
  assumes "0 \<le> h * 60 + m" and "h * 60 + m < 1440"
  shows "date_of (wall d h m) = d"
  unfolding wall_def hm_def using assms by (intro date_of_combine) auto

lemma slots_D: "window_slots tuesday 30 (Some (hm 11 0, hm 13 0)) =
   [(wall tuesday 11 0, wall tuesday 11 30), (wall tuesday 11 30, wall tuesday 12 0),
    (wall tuesday 12 0, wall tuesday 12 30), (wall tuesday 12 30, wall tuesday 13 0)]"
  by code_simp

lemma in_range_D: "in_range tuesday 30 (Some (hm 11 0, hm 13 0))"
  by (simp add: in_range_def last_probe_def slots_D)
     (simp add: combine_def hm_def tuesday_def datetime_min_def datetime_max_def)

lemma day_name_tuesday: "day_name_of tuesday = ''Tue''"
  by (simp add: day_name_of_def day_names_def tuesday_def)

lemma day_name_wednesday: "day_name_of (tuesday + 1) = ''Wed''"
  by (simp add: day_name_of_def day_names_def tuesday_def)

lemma sched_D: "weekly_schedule doctor_D (day_name_of tuesday) = Some [Some (hm 11 0, hm 13 0)]"
  by (simp add: doctor_D_def day_name_tuesday)

lemmas eval_time = tile.simps plus_minutes_def timedelta_minutes_def add_timedelta_def
  wall_def hm_def combine_def tuesday_def datetime_min_def datetime_max_def

lemma tuesday_not_last: "\<not> date_max < tuesday + 1" "\<not> date_max \<le> tuesday"
  by (simp_all add: date_max_def tuesday_def)

section \<open>The slot generator\<close>

lemma window_slots_mem:
  assumes "0 < n"
  shows "(combine d s + int k * (n * us_per_minute), combine d s + int k * (n * us_per_minute) + n * us_per_minute)
           \<in> set (window_slots d n (Some (s, e)))
         \<longleftrightarrow> combine d s + int k * (n * us_per_minute) + n * us_per_minute \<le> combine d e"
proof -
  have step: "0 < n * us_per_minute" using assms by simp
  show ?thesis
    using assms fits_iff[OF step, of "combine d s" _ "combine d e"]
    by (auto simp: window_slots_tiles tiles_def image_iff)
qed

lemma compute_no_windows:
  assumes "weekly_schedule doc (day_name_of d) = None \<or> weekly_schedule doc (day_name_of d) = Some []"
  shows "compute_free_slots_for_date g clk doc (Some d) n = Some (Inr ([], Some no_schedule))"
  using assms by (auto simp: compute_free_slots_for_date_def)

text \<open>
  C1, as the code has it. For a positive slot duration whose sums with the cursor stay
  datetimes, the generator returns, for the windows of the day in their order, the tiling of
  each window; whenever it returns for a positive duration, what it returns is that tiling.
  Candidate number \<open>k\<close> starts at the window's start plus \<open>k\<close> durations and is included iff
  its end does not pass the window's end. For every slot duration, a weekday without
  configured windows gives the empty list with the code \<^verbatim>\<open>no_schedule\<close>, which differs from
  the code of a fully booked day.
\<close>

theorem slot_generator_tiles_each_window:
  "(0 < slot_minutes \<and> slot_minutes \<le> 999999999 * 1440 + 1439
      \<and> (\<forall>w \<in> set windows. in_range d slot_minutes w) \<longrightarrow>
      (\<exists>earliest latest.
         windows_loop d slot_minutes windows ([], None, None)
           = Some (Inr (concat (map (window_slots d slot_minutes) windows), earliest, latest))))
   \<and> (0 < slot_minutes
        \<and> windows_loop d slot_minutes windows ([], None, None) = Some (Inr (slot_ranges, ea, la))
       \<longrightarrow> slot_ranges = concat (map (window_slots d slot_minutes) windows))
   \<and> (0 < slot_minutes \<longrightarrow>
        (\<forall>start_t end_t k.
            (combine d start_t + int k * (slot_minutes * us_per_minute),
             combine d start_t + int k * (slot_minutes * us_per_minute) + slot_minutes * us_per_minute)
               \<in> set (window_slots d slot_minutes (Some (start_t, end_t)))
            \<longleftrightarrow> combine d start_t + int k * (slot_minutes * us_per_minute) + slot_minutes * us_per_minute
                  \<le> combine d end_t))
   \<and> (weekly_schedule doc (day_name_of d') = None \<or> weekly_schedule doc (day_name_of d') = Some []
        \<longrightarrow> compute_free_slots_for_date g clk doc (Some d') slot_minutes = Some (Inr ([], Some no_schedule)))
   \<and> fst no_schedule \<noteq> fst (no_slots ''fully_booked'')"
proof (intro conjI impI allI)
  assume a: "0 < slot_minutes \<and> slot_minutes \<le> 999999999 * 1440 + 1439
      \<and> (\<forall>w \<in> set windows. in_range d slot_minutes w)"
  then have "0 < slot_minutes" "slot_minutes \<le> 999999999 * 1440 + 1439"
    "\<forall>w \<in> set windows. in_range d slot_minutes w" by blast+
  from windows_loop_pos[OF this, of "[]" None None]
  show "\<exists>earliest latest.
         windows_loop d slot_minutes windows ([], None, None)
           = Some (Inr (concat (map (window_slots d slot_minutes) windows), earliest, latest))"
    by auto
next
  assume "0 < slot_minutes
        \<and> windows_loop d slot_minutes windows ([], None, None) = Some (Inr (slot_ranges, ea, la))"
  then show "slot_ranges = concat (map (window_slots d slot_minutes) windows)"
    using windows_loop_returns[of d slot_minutes windows "[]" None None slot_ranges ea la] by simp
next
  fix start_t end_t k
  assume "0 < slot_minutes"
  then show "(combine d start_t + int k * (slot_minutes * us_per_minute),
             combine d start_t + int k * (slot_minutes * us_per_minute) + slot_minutes * us_per_minute)
               \<in> set (window_slots d slot_minutes (Some (start_t, end_t)))
            \<longleftrightarrow> combine d start_t + int k * (slot_minutes * us_per_minute) + slot_minutes * us_per_minute
                  \<le> combine d end_t"
    by (rule window_slots_mem)
next
  assume "weekly_schedule doc (day_name_of d') = None \<or> weekly_schedule doc (day_name_of d') = Some []"
  then show "compute_free_slots_for_date g clk doc (Some d') slot_minutes = Some (Inr ([], Some no_schedule))"
    by (rule compute_no_windows)
next
  show "fst no_schedule \<noteq> fst (no_slots ''fully_booked'')"
    by (simp add: no_schedule_def no_slots_def)
qed

text \<open>
  The theorem at doctor D: slot size 30 on the Tuesday gives the four candidates of the
  window 11:00-13:00, and the Wednesday, which has no windows, gives \<^verbatim>\<open>no_schedule\<close>.
\<close>

theorem slot_generator_tiles_each_window_witness:
  "(0::int) < 30
   \<and> in_range tuesday 30 (Some (hm 11 0, hm 13 0))
   \<and> (\<exists>earliest latest. windows_loop tuesday 30 [Some (hm 11 0, hm 13 0)] ([], None, None) =
      Some (Inr ([(wall tuesday 11 0, wall tuesday 11 30), (wall tuesday 11 30, wall tuesday 12 0),
             (wall tuesday 12 0, wall tuesday 12 30), (wall tuesday 12 30, wall tuesday 13 0)],
            earliest, latest)))
   \<and> weekly_schedule doctor_D (day_name_of (tuesday + 1)) = None
   \<and> compute_free_slots_for_date (calendar_answering (Some [])) (clock_at 0) doctor_D
        (Some (tuesday + 1)) 30 = Some (Inr ([], Some no_schedule))"
  using slot_generator_tiles_each_window[of 30 "[Some (hm 11 0, hm 13 0)]" tuesday _ _ _ doctor_D "tuesday + 1"
          "calendar_answering (Some [])" "clock_at 0"]
  by (simp add: slots_D in_range_D day_name_wednesday doctor_D_def)

text \<open>
  C1 as stated covers every slot duration. With duration 0 the loop over the window
  11:00-13:00 never advances its cursor, and neither the generator nor the availability
  computation returns; with a duration of ten thousand million minutes the first sum is
  past the last datetime and both raise \<^verbatim>\<open>OverflowError\<close>.
\<close>

theorem duration_out_of_range_counterexample:
  "windows_loop tuesday 0 [Some (hm 11 0, hm 13 0)] ([], None, None) = None
   \<and> compute_free_slots_for_date (calendar_answering (Some [])) (clock_at 0) doctor_D (Some tuesday) 0 = None
   \<and> windows_loop tuesday 10000000000 [Some (hm 11 0, hm 13 0)] ([], None, None) = Some (Inl OverflowError)
   \<and> compute_free_slots_for_date (calendar_answering (Some [])) (clock_at 0) doctor_D (Some tuesday) 10000000000
       = Some (Inl OverflowError)"
proof -
  have z: "tile (combine tuesday (hm 11 0)) 0 (combine tuesday (hm 13 0)) [] = None"
    by (rule tile_zero_diverges)
       (simp_all add: combine_def hm_def tuesday_def datetime_min_def datetime_max_def)
  have o: "tile (combine tuesday (hm 11 0)) 10000000000 (combine tuesday (hm 13 0)) [] = Some (Inl OverflowError)"
    by (subst tile.simps)
       (simp add: plus_minutes_def timedelta_minutes_def add_timedelta_def combine_def hm_def
          tuesday_def datetime_min_def datetime_max_def)
  show ?thesis
    by (simp add: compute_free_slots_for_date_def sched_D z o)
qed

section \<open>Candidates and windows\<close>

lemma window_slots_inside:
  assumes "0 < n" and "c \<in> set (window_slots d n (Some (s, e)))"
  shows "combine d s \<le> fst c \<and> snd c \<le> combine d e \<and> fst c < snd c"
proof -
  have step: "0 < n * us_per_minute" using assms(1) by simp
  from assms(2) obtain k where c: "c = (combine d s + int k * (n * us_per_minute),
      combine d s + int k * (n * us_per_minute) + n * us_per_minute)"
    and fit: "combine d s + int k * (n * us_per_minute) + n * us_per_minute \<le> combine d e"
    by (auto simp: window_slots_def)
  have "0 \<le> int k * (n * us_per_minute)" using step by simp
  with c fit step show ?thesis by simp
qed

lemma window_slots_sorted:
  assumes "0 < n"
  shows "sorted_wrt no_overlap (window_slots d n w)"
proof (cases w)
  case None
  then show ?thesis by (simp add: window_slots_def)
next
  case (Some p)
  obtain s e where p: "p = (s, e)" by (cases p)
  define step where "step = n * us_per_minute"
  have step: "0 < step" using assms by (simp add: step_def)
  have "sorted_wrt (\<lambda>i j. no_overlap (combine d s + int i * step, combine d s + int i * step + step)
                                     (combine d s + int j * step, combine d s + int j * step + step))
          [0..<nat ((combine d e - combine d s) div step)]"
  proof (rule sorted_wrt_mono_rel[OF _ sorted_wrt_upt[where ?m = 0]])
    fix i j :: nat
    assume "i < j"
    then have "int i + 1 \<le> int j" by simp
    then have "(int i + 1) * step \<le> int j * step" using step by (simp only: mult_right_mono less_imp_le)
    then show "no_overlap (combine d s + int i * step, combine d s + int i * step + step)
                 (combine d s + int j * step, combine d s + int j * step + step)"
      by (simp add: no_overlap_def algebra_simps)
  qed
  then show ?thesis
    using assms Some p by (simp add: window_slots_tiles tiles_def sorted_wrt_map step_def)
qed

lemma slots_of_disjoint_windows:
  assumes "0 < n" and "windows_disjoint w1 w2"
    and "a \<in> set (window_slots d n w1)" and "b \<in> set (window_slots d n w2)"
  shows "no_overlap a b"
proof -
  from assms(3) obtain s1 e1 where w1: "w1 = Some (s1, e1)"
    by (cases w1) (auto simp: window_slots_def)
  from assms(4) obtain s2 e2 where w2: "w2 = Some (s2, e2)"
    by (cases w2) (auto simp: window_slots_def)
  from window_slots_inside[OF assms(1)] assms(3,4) w1 w2
  have "combine d s1 \<le> fst a" "snd a \<le> combine d e1" "combine d s2 \<le> fst b" "snd b \<le> combine d e2"
    by blast+
  moreover from assms(2) w1 w2 have "e2 \<le> s1 \<or> e1 \<le> s2"
    by (auto simp: windows_disjoint_def)
  ultimately show ?thesis by (auto simp: no_overlap_def combine_def)
qed

lemma concat_slots_sorted:
  assumes "0 < n" and "sorted_wrt windows_disjoint ws"
  shows "sorted_wrt no_overlap (concat (map (window_slots d n) ws))"
  using assms(2)
proof (induction ws)
  case Nil
  then show ?case by simp
next
  case (Cons w ws)
  then have "\<forall>a \<in> set (window_slots d n w). \<forall>b \<in> set (concat (map (window_slots d n) ws)). no_overlap a b"
    using slots_of_disjoint_windows[OF assms(1)] by auto
  with Cons window_slots_sorted[OF assms(1)] show ?case
    by (simp add: sorted_wrt_append)
qed

text \<open>
  C9. Where the windows of the weekday are pairwise non-overlapping (half-open) and each
  ends strictly after its start, every candidate the generator returns lies within exactly
  one window of the list, and no two candidates overlap.
\<close>

theorem candidates_in_one_window_and_disjoint:
  assumes run: "windows_loop d slot_minutes windows ([], None, None) = Some (Inr (slot_ranges, earliest, latest))"
    and proper: "\<forall>i < length windows. \<forall>s e. windows ! i = Some (s, e) \<longrightarrow> s < e"
    and disjoint: "\<forall>i j s1 e1 s2 e2. i < j \<and> j < length windows
            \<and> windows ! i = Some (s1, e1) \<and> windows ! j = Some (s2, e2) \<longrightarrow> \<not> (s1 < e2 \<and> e1 > s2)"
  shows "(\<forall>c \<in> set slot_ranges.
            \<exists>!i. i < length windows
               \<and> (\<exists>s e. windows ! i = Some (s, e) \<and> combine d s \<le> fst c \<and> snd c \<le> combine d e))
       \<and> (\<forall>i j. i < j \<and> j < length slot_ranges \<longrightarrow> no_overlap (slot_ranges ! i) (slot_ranges ! j))"
proof (cases "\<forall>w \<in> set windows. w = None")
  case True
  from windows_loop_all_None[OF True] run have "slot_ranges = []" by simp
  then show ?thesis by simp
next
  case False
  have "\<forall>s e. Some (s, e) \<in> set windows \<longrightarrow> s \<le> e"
    using proper by (auto simp: in_set_conv_nth)
  from windows_loop_returns_only_if[OF run this] False have pos: "0 < slot_minutes" by blast
  from windows_loop_returns[OF run pos]
  have rs: "slot_ranges = concat (map (window_slots d slot_minutes) windows)" by simp
  have wd: "sorted_wrt windows_disjoint windows"
    unfolding sorted_wrt_iff_nth_less using disjoint
    by (auto simp: windows_disjoint_def split: option.splits)
  have part2: "\<forall>i j. i < j \<and> j < length slot_ranges \<longrightarrow> no_overlap (slot_ranges ! i) (slot_ranges ! j)"
    using concat_slots_sorted[OF pos wd, of d] unfolding rs sorted_wrt_iff_nth_less by blast
  have part1: "\<exists>!i. i < length windows
               \<and> (\<exists>s e. windows ! i = Some (s, e) \<and> combine d s \<le> fst c \<and> snd c \<le> combine d e)"
    if c: "c \<in> set slot_ranges" for c
  proof -
    from c rs obtain w where w: "w \<in> set windows" "c \<in> set (window_slots d slot_minutes w)" by auto
    then obtain s e where se: "w = Some (s, e)" by (cases w) (auto simp: window_slots_def)
    from w(1) obtain i where i: "i < length windows" "windows ! i = w" by (auto simp: in_set_conv_nth)
    from window_slots_inside[OF pos] w(2) se
    have inside: "combine d s \<le> fst c" "snd c \<le> combine d e" "fst c < snd c" by blast+
    show ?thesis
    proof (rule ex1I[of _ i])
      show "i < length windows \<and> (\<exists>s e. windows ! i = Some (s, e) \<and> combine d s \<le> fst c \<and> snd c \<le> combine d e)"
        using i se inside by auto
    next
      fix j
      assume j: "j < length windows \<and> (\<exists>s e. windows ! j = Some (s, e) \<and> combine d s \<le> fst c \<and> snd c \<le> combine d e)"
      then obtain s' e' where j': "windows ! j = Some (s', e')" "combine d s' \<le> fst c" "snd c \<le> combine d e'"
        by blast
      have ov: "s < e' \<and> e > s'" "s' < e \<and> e' > s"
        using inside j'(2,3) by (auto simp: combine_def)
      show "j = i"
      proof (rule ccontr)
        assume "j \<noteq> i"
        then consider "i < j" | "j < i" by linarith
        then show False
        proof cases
          case 1
          with disjoint j i se j'(1) ov show False by blast
        next
          case 2
          with disjoint j i se j'(1) ov show False by blast
        qed
      qed
    qed
  qed
  from part1 part2 show ?thesis by blast
qed


text \<open>The theorem on a Tuesday with the windows 11:00-12:00 and 14:00-15:00, slot size 30.\<close>

theorem candidates_in_one_window_and_disjoint_witness:
  "windows_loop tuesday 30 split_day ([], None, None)
     = Some (Inr (split_day_slots, Some (wall tuesday 11 0), Some (wall tuesday 15 0)))
   \<and> (\<exists>!i. i < length split_day
          \<and> (\<exists>s e. split_day ! i = Some (s, e)
                 \<and> combine tuesday s \<le> wall tuesday 14 0
                 \<and> wall tuesday 14 30 \<le> combine tuesday e))
   \<and> no_overlap (wall tuesday 11 30, wall tuesday 12 0) (wall tuesday 14 0, wall tuesday 14 30)"
proof -
  have run: "windows_loop tuesday 30 split_day ([], None, None)
     = Some (Inr (split_day_slots, Some (wall tuesday 11 0), Some (wall tuesday 15 0)))"
    by (simp add: split_day_def split_day_slots_def tile.simps plus_minutes_def timedelta_minutes_def
          add_timedelta_def wall_def hm_def combine_def tuesday_def datetime_min_def datetime_max_def)
  have proper: "\<forall>i < length split_day. \<forall>s e. split_day ! i = Some (s, e) \<longrightarrow> s < e"
    by (auto simp: split_day_def hm_def nth_Cons' less_Suc_eq numeral_3_eq_3)
  have disjoint: "\<forall>i j s1 e1 s2 e2. i < j \<and> j < length split_day
            \<and> split_day ! i = Some (s1, e1) \<and> split_day ! j = Some (s2, e2) \<longrightarrow> \<not> (s1 < e2 \<and> e1 > s2)"
    by (auto simp: split_day_def hm_def nth_Cons' less_Suc_eq numeral_3_eq_3 split: if_splits)
  note t = candidates_in_one_window_and_disjoint[OF run proper disjoint]
  have mem: "(wall tuesday 14 0, wall tuesday 14 30) \<in> set split_day_slots"
    by (simp add: split_day_slots_def)
  have nth: "split_day_slots ! 1 = (wall tuesday 11 30, wall tuesday 12 0)"
    "split_day_slots ! 2 = (wall tuesday 14 0, wall tuesday 14 30)"
    "(1::nat) < 2 \<and> 2 < length split_day_slots"
    by (simp_all add: split_day_slots_def)
  from t mem have one: "\<exists>!i. i < length split_day
          \<and> (\<exists>s e. split_day ! i = Some (s, e)
                 \<and> combine tuesday s \<le> fst (wall tuesday 14 0, wall tuesday 14 30)
                 \<and> snd (wall tuesday 14 0, wall tuesday 14 30) \<le> combine tuesday e)"
    by blast
  from t nth(3) have "no_overlap (split_day_slots ! 1) (split_day_slots ! 2)"
    by blast
  then have "no_overlap (wall tuesday 11 30, wall tuesday 12 0) (wall tuesday 14 0, wall tuesday 14 30)"
    by (simp only: nth(1,2))
  with run one show ?thesis
    by simp
qed

section \<open>The availability computation\<close>

lemma compute_after_freebusy:
  assumes sched: "weekly_schedule doc (day_name_of d) = Some windows"
    and run: "windows_loop d n windows ([], None, None) = Some (Inr (slot_ranges, Some earliest, Some latest))"
    and fb: "freebusy g (calendar_id doc) earliest latest = Some busy"
  shows "compute_free_slots_for_date g clk doc (Some d) n =
     (let is_today = (d = date_of (now_local clk));
          cutoff = now_local clk + MIN_LEAD_MINUTES clk * us_per_minute;
          free_slots = free_loop is_today cutoff busy slot_ranges
      in if free_slots = []
         then Some (Inr ([], Some (no_slots
                (if \<not> (\<exists>rng \<in> set slot_ranges. \<not> is_today \<or> fst rng \<ge> cutoff)
                 then ''no_future_slots'' else ''fully_booked''))))
         else Some (Inr (free_slots, None)))"
proof -
  from run have "windows \<noteq> []" by auto
  then obtain w ws where "windows = w # ws" by (cases windows) auto
  then show ?thesis
    using sched run fb by (simp add: compute_free_slots_for_date_def Let_def)
qed

lemma day_D: "windows_loop tuesday 30 [Some (hm 11 0, hm 13 0)] ([], None, None) =
      Some (Inr ([(wall tuesday 11 0, wall tuesday 11 30), (wall tuesday 11 30, wall tuesday 12 0),
             (wall tuesday 12 0, wall tuesday 12 30), (wall tuesday 12 30, wall tuesday 13 0)],
            Some (wall tuesday 11 0), Some (wall tuesday 13 0)))"
  by (simp add: eval_time)

lemma strftime_D:
  "strftime_HM (wall tuesday 11 0) = ''11:00''"
  "strftime_HM (wall tuesday 11 30) = ''11:30''"
  "strftime_HM (wall tuesday 12 0) = ''12:00''"
  "strftime_HM (wall tuesday 12 30) = ''12:30''"
  by (simp_all add: strftime_HM_def wall_def hm_def combine_def tuesday_def two_digits_def digit_char_def)

text \<open>
  C2, as the code has it. Once the free/busy query has answered, the free list is, in the
  order of the candidates, the \<^verbatim>\<open>HH:MM\<close> start of every candidate that overlaps no busy
  interval (half-open: \<open>start < busy_end\<close> and \<open>end > busy_start\<close>) and that the lead-time
  filter does not discard (the date is today and the start lies before now plus the lead
  time).
\<close>

theorem free_iff_no_overlap_and_not_cut_off:
  assumes sched: "weekly_schedule doc (day_name_of d) = Some windows"
    and run: "windows_loop d slot_minutes windows ([], None, None)
               = Some (Inr (slot_ranges, Some earliest, Some latest))"
    and fb: "freebusy g (calendar_id doc) earliest latest = Some busy"
  shows "\<exists>meta. compute_free_slots_for_date g clk doc (Some d) slot_minutes =
           Some (Inr (map (strftime_HM \<circ> fst)
                   (filter (\<lambda>(s, e). \<not> (d = date_of (now_local clk)
                                            \<and> s < now_local clk + MIN_LEAD_MINUTES clk * us_per_minute)
                                    \<and> \<not> (\<exists>(b_start, b_end) \<in> set busy. s < b_end \<and> e > b_start))
                      slot_ranges),
                 meta))"
  unfolding compute_after_freebusy[OF sched run fb]
  by (simp add: Let_def free_loop_filter overlaps_iff)

text \<open>
  The specification's example: doctor D, Tuesday 11:00-13:00, slot size 30, busy
  12:00-12:30, asked on the Monday before.
\<close>

theorem free_iff_no_overlap_and_not_cut_off_witness:
  "compute_free_slots_for_date (calendar_answering (Some [(wall tuesday 12 0, wall tuesday 12 30)]))
      (clock_at (wall (tuesday - 1) 9 0)) doctor_D (Some tuesday) 30
   = Some (Inr ([''11:00'', ''11:30'', ''12:30''], None))"
proof -
  have sched: "weekly_schedule doctor_D (day_name_of tuesday) = Some [Some (hm 11 0, hm 13 0)]"
    by (simp add: doctor_D_def day_name_tuesday)
  have fb: "freebusy (calendar_answering (Some [(wall tuesday 12 0, wall tuesday 12 30)]))
              (calendar_id doctor_D) (wall tuesday 11 0) (wall tuesday 13 0)
            = Some [(wall tuesday 12 0, wall tuesday 12 30)]"
    by (simp add: calendar_answering_def)
  from free_iff_no_overlap_and_not_cut_off[OF sched day_D fb, of "clock_at (wall (tuesday - 1) 9 0)"]
  obtain meta where m: "compute_free_slots_for_date (calendar_answering (Some [(wall tuesday 12 0, wall tuesday 12 30)]))
      (clock_at (wall (tuesday - 1) 9 0)) doctor_D (Some tuesday) 30
   = Some (Inr ([''11:00'', ''11:30'', ''12:30''], meta))"
    by (auto simp: strftime_D clock_at_def date_of_wall wall_cmp)
  then show ?thesis
    by (simp add: compute_after_freebusy[OF sched day_D fb] Let_def split: if_splits)
qed

text \<open>
  C2 as stated makes a candidate free iff it overlaps no busy interval. Asked on that
  Tuesday at 11:15, the candidate 11:00-11:30 overlaps nothing and is not in the list.
\<close>

theorem cut_off_candidate_counterexample:
  "windows_loop tuesday 30 [Some (hm 11 0, hm 13 0)] ([], None, None) =
      Some (Inr ([(wall tuesday 11 0, wall tuesday 11 30), (wall tuesday 11 30, wall tuesday 12 0),
             (wall tuesday 12 0, wall tuesday 12 30), (wall tuesday 12 30, wall tuesday 13 0)],
            Some (wall tuesday 11 0), Some (wall tuesday 13 0)))
   \<and> \<not> overlaps (wall tuesday 11 0) (wall tuesday 11 30) [(wall tuesday 12 0, wall tuesday 12 30)]
   \<and> compute_free_slots_for_date (calendar_answering (Some [(wall tuesday 12 0, wall tuesday 12 30)]))
        (clock_at (wall tuesday 11 15)) doctor_D (Some tuesday) 30
      = Some (Inr ([''11:30'', ''12:30''], None))"
proof -
  have sched: "weekly_schedule doctor_D (day_name_of tuesday) = Some [Some (hm 11 0, hm 13 0)]"
    by (simp add: doctor_D_def day_name_tuesday)
  have fb: "freebusy (calendar_answering (Some [(wall tuesday 12 0, wall tuesday 12 30)]))
              (calendar_id doctor_D) (wall tuesday 11 0) (wall tuesday 13 0)
            = Some [(wall tuesday 12 0, wall tuesday 12 30)]"
    by (simp add: calendar_answering_def)
  have "compute_free_slots_for_date (calendar_answering (Some [(wall tuesday 12 0, wall tuesday 12 30)]))
        (clock_at (wall tuesday 11 15)) doctor_D (Some tuesday) 30
      = Some (Inr ([''11:30'', ''12:30''], None))"
    unfolding compute_after_freebusy[OF sched day_D fb]
    by (simp add: Let_def strftime_D clock_at_def date_of_wall wall_cmp)
  moreover have "\<not> overlaps (wall tuesday 11 0) (wall tuesday 11 30) [(wall tuesday 12 0, wall tuesday 12 30)]"
    by (simp add: wall_cmp)
  ultimately show ?thesis using day_D by simp
qed

lemma find_doctor_D: "find_doctor [doctor_D] ''D'' = Some doctor_D"
  by (simp add: find_doctor_def doctor_D_def)

lemma freebusy_answering: "freebusy (calendar_answering reply) cal t1 t2 = reply"
  by (simp add: calendar_answering_def)

lemma free_loop_empty:
  "free_loop is_today cutoff busy rs = []
   \<longleftrightarrow> (\<forall>c \<in> set rs. \<not> (is_today \<and> fst c < cutoff) \<longrightarrow> overlaps (fst c) (snd c) busy)"
  by (auto simp: free_loop_filter filter_empty_conv)

lemma tool_single_D:
  "availability_tool [doctor_D] g clk ''D'' (Day tuesday) n Blank =
     (case compute_free_slots_for_date g clk doctor_D (Some tuesday) n of
        None \<Rightarrow> None | Some (Inl x) \<Rightarrow> Some (Inl x)
      | Some (Inr (slots, meta)) \<Rightarrow> Some (Inr (Slots slots meta)))"
  by (simp add: availability_tool_def find_doctor_D)

lemma day_D_120: "windows_loop tuesday 120 [Some (hm 11 0, hm 13 0)] ([], None, None) =
      Some (Inr ([(wall tuesday 11 0, wall tuesday 13 0)],
            Some (wall tuesday 11 0), Some (wall tuesday 13 0)))"
  by (simp add: eval_time)

lemma range_loop_result:
  assumes "range_loop g clk doc n d end_d acc = Some (Inr m)"
  shows "m = acc @ map (\<lambda>x. (x, case compute_free_slots_for_date g clk doc (Some x) n of
                                    Some (Inr (slots, meta)) \<Rightarrow> slots | _ \<Rightarrow> [])) [d..end_d]"
  using assms
proof (induction g clk doc n d end_d acc rule: range_loop.induct)
  case (1 g clk doc n d end_d acc)
  show ?case
  proof (cases "d \<le> end_d")
    case False
    with "1.prems" show ?thesis by (simp add: range_loop.simps)
  next
    case True
    from "1.prems" True obtain slots meta where
      c: "compute_free_slots_for_date g clk doc (Some d) n = Some (Inr (slots, meta))"
      and last: "\<not> d + 1 > date_max"
      and r: "range_loop g clk doc n (d + 1) end_d (acc @ [(d, slots)]) = Some (Inr m)"
      by (subst (asm) range_loop.simps) (auto split: option.splits sum.splits if_splits)
    from "1.IH"[OF True c refl refl last r] have "m = (acc @ [(d, slots)]) @
        map (\<lambda>x. (x, case compute_free_slots_for_date g clk doc (Some x) n of
                                    Some (Inr (slots, meta)) \<Rightarrow> slots | _ \<Rightarrow> [])) [d + 1..end_d]" .
    moreover have "[d..end_d] = d # [d + 1..end_d]" using True by (simp add: upto_rec1)
    ultimately show ?thesis using c by simp
  qed
qed

lemma compute_freebusy_fails:
  assumes sched: "weekly_schedule doc (day_name_of d) = Some windows"
    and run: "windows_loop d n windows ([], None, None) = Some (Inr (slot_ranges, Some earliest, Some latest))"
    and fb: "freebusy g (calendar_id doc) earliest latest = None"
  shows "compute_free_slots_for_date g clk doc (Some d) n = Some (Inr ([], Some freebusy_error))"
proof -
  from run have "windows \<noteq> []" by auto
  then obtain w ws where "windows = w # ws" by (cases windows) auto
  then show ?thesis
    using sched run fb by (simp add: compute_free_slots_for_date_def)
qed

section \<open>Signals of an empty free list\<close>

text \<open>
  C7, as the code has it. A single-date query that generated candidates, got its free/busy
  answer and returns an empty list carries exactly one of two codes. It is
  \<^verbatim>\<open>no_future_slots\<close> when the date is today and every candidate starts before now plus
  the lead time. Otherwise it is \<^verbatim>\<open>fully_booked\<close>, and then every candidate that the
  today-only lead-time filter keeps overlaps a busy interval.
\<close>

theorem empty_free_list_signals:
  assumes doc: "find_doctor db did = Some doc"
    and sched: "weekly_schedule doc (day_name_of d) = Some windows"
    and run: "windows_loop d slot_minutes windows ([], None, None)
               = Some (Inr (slot_ranges, Some earliest, Some latest))"
    and fb: "freebusy g (calendar_id doc) earliest latest = Some busy"
    and candidates: "slot_ranges \<noteq> []"
    and empty: "availability_tool db g clk did (Day d) slot_minutes Blank = Some (Inr (Slots [] meta))"
  shows "(d = date_of (now_local clk)
            \<and> (\<forall>c \<in> set slot_ranges. fst c < now_local clk + MIN_LEAD_MINUTES clk * us_per_minute)
          \<longrightarrow> meta = Some (no_slots ''no_future_slots''))
       \<and> (\<not> (d = date_of (now_local clk)
               \<and> (\<forall>c \<in> set slot_ranges. fst c < now_local clk + MIN_LEAD_MINUTES clk * us_per_minute))
          \<longrightarrow> meta = Some (no_slots ''fully_booked'')
              \<and> (\<forall>c \<in> set slot_ranges.
                    \<not> (d = date_of (now_local clk) \<and> fst c < now_local clk + MIN_LEAD_MINUTES clk * us_per_minute)
                    \<longrightarrow> overlaps (fst c) (snd c) busy))
       \<and> no_slots ''no_future_slots'' \<noteq> no_slots ''fully_booked''"
proof -
  let ?today = "d = date_of (now_local clk)"
  let ?cutoff = "now_local clk + MIN_LEAD_MINUTES clk * us_per_minute"
  from empty doc have c: "compute_free_slots_for_date g clk doc (Some d) slot_minutes = Some (Inr ([], meta))"
    by (auto simp: availability_tool_def split: option.splits sum.splits)
  have fl: "free_loop ?today ?cutoff busy slot_ranges = []"
    using c unfolding compute_after_freebusy[OF sched run fb]
    by (auto simp: Let_def split: if_splits)
  then have busy: "\<forall>c \<in> set slot_ranges. \<not> (?today \<and> fst c < ?cutoff) \<longrightarrow> overlaps (fst c) (snd c) busy"
    by (simp only: free_loop_empty)
  have m: "meta = Some (no_slots (if \<not> (\<exists>rng \<in> set slot_ranges. \<not> ?today \<or> fst rng \<ge> ?cutoff)
                 then ''no_future_slots'' else ''fully_booked''))"
    using c fl unfolding compute_after_freebusy[OF sched run fb] by (simp add: Let_def)
  from candidates obtain c0 where c0: "c0 \<in> set slot_ranges" by (cases slot_ranges) auto
  have any: "(\<exists>rng \<in> set slot_ranges. \<not> ?today \<or> fst rng \<ge> ?cutoff)
             \<longleftrightarrow> \<not> (?today \<and> (\<forall>c \<in> set slot_ranges. fst c < ?cutoff))"
    using c0 by (auto simp: not_less)
  show ?thesis
    using m busy unfolding any by (auto simp: no_slots_def)
qed


text \<open>Doctor D asked on the Tuesday at 13:30, with nothing busy: no future slots.\<close>

theorem empty_free_list_signals_witness:
  "availability_tool [doctor_D] (calendar_answering (Some [])) (clock_at (wall tuesday 13 30))
       ''D'' (Day tuesday) 30 Blank
     = Some (Inr (Slots [] (Some (no_slots ''no_future_slots''))))
   \<and> tuesday = date_of (now_local (clock_at (wall tuesday 13 30)))
   \<and> wall tuesday 12 30 < now_local (clock_at (wall tuesday 13 30)) + MIN_LEAD_MINUTES (clock_at (wall tuesday 13 30)) * us_per_minute
   \<and> no_slots ''no_future_slots'' \<noteq> no_slots ''fully_booked''"
proof -
  have fb: "freebusy (calendar_answering (Some [])) (calendar_id doctor_D)
              (wall tuesday 11 0) (wall tuesday 13 0) = Some []"
    by (rule freebusy_answering)
  have res: "availability_tool [doctor_D] (calendar_answering (Some [])) (clock_at (wall tuesday 13 30))
       ''D'' (Day tuesday) 30 Blank
     = Some (Inr (Slots [] (Some (no_slots ''no_future_slots''))))"
    unfolding tool_single_D compute_after_freebusy[OF sched_D day_D fb]
    by (simp add: Let_def clock_at_def date_of_wall wall_cmp)
  from empty_free_list_signals[OF find_doctor_D sched_D day_D fb _ res] res
  show ?thesis
    by (simp add: clock_at_def date_of_wall wall_cmp)
qed

text \<open>
  C7 as stated gives "no future slots" whenever every candidate starts before the lead-time
  cutoff. Asked on the Wednesday about the Tuesday before, with the whole window busy, the
  only candidate starts before the cutoff and the code is \<^verbatim>\<open>fully_booked\<close>.
\<close>

theorem past_date_fully_booked_counterexample:
  "windows_loop tuesday 120 [Some (hm 11 0, hm 13 0)] ([], None, None) =
      Some (Inr ([(wall tuesday 11 0, wall tuesday 13 0)],
            Some (wall tuesday 11 0), Some (wall tuesday 13 0)))
   \<and> wall tuesday 11 0
        < now_local (clock_at (wall (tuesday + 1) 9 0)) + MIN_LEAD_MINUTES (clock_at (wall (tuesday + 1) 9 0)) * us_per_minute
   \<and> availability_tool [doctor_D] (calendar_answering (Some [(wall tuesday 11 0, wall tuesday 13 0)]))
        (clock_at (wall (tuesday + 1) 9 0)) ''D'' (Day tuesday) 120 Blank
      = Some (Inr (Slots [] (Some (no_slots ''fully_booked''))))"
proof -
  have fb: "freebusy (calendar_answering (Some [(wall tuesday 11 0, wall tuesday 13 0)])) (calendar_id doctor_D)
              (wall tuesday 11 0) (wall tuesday 13 0) = Some [(wall tuesday 11 0, wall tuesday 13 0)]"
    by (rule freebusy_answering)
  have "availability_tool [doctor_D] (calendar_answering (Some [(wall tuesday 11 0, wall tuesday 13 0)]))
        (clock_at (wall (tuesday + 1) 9 0)) ''D'' (Day tuesday) 120 Blank
      = Some (Inr (Slots [] (Some (no_slots ''fully_booked''))))"
    unfolding tool_single_D compute_after_freebusy[OF sched_D day_D_120 fb]
    by (simp add: Let_def clock_at_def date_of_wall wall_cmp)
  moreover have "wall tuesday 11 0
        < now_local (clock_at (wall (tuesday + 1) 9 0)) + MIN_LEAD_MINUTES (clock_at (wall (tuesday + 1) 9 0)) * us_per_minute"
    by (simp add: clock_at_def wall_def hm_def combine_def)
  ultimately show ?thesis using day_D_120 by simp
qed

section \<open>A failing free/busy query\<close>

text \<open>
  C3, as the code has it. When the free/busy query of a day fails, a single-date query
  answers with the empty list and the code \<^verbatim>\<open>freebusy_error\<close>, which differs from the codes
  of a day without schedule, without future slots and fully booked. A date-range query drops
  the code: the entry of that day is the plain empty list.
\<close>

theorem freebusy_failure_reported:
  assumes doc: "find_doctor db did = Some doc"
    and sched: "weekly_schedule doc (day_name_of d) = Some windows"
    and run: "windows_loop d slot_minutes windows ([], None, None)
               = Some (Inr (slot_ranges, Some earliest, Some latest))"
    and fb: "freebusy g (calendar_id doc) earliest latest = None"
  shows "availability_tool db g clk did (Day d) slot_minutes Blank = Some (Inr (Slots [] (Some freebusy_error)))
       \<and> fst freebusy_error \<noteq> fst no_schedule
       \<and> fst freebusy_error \<noteq> fst (no_slots ''no_future_slots'')
       \<and> fst freebusy_error \<noteq> fst (no_slots ''fully_booked'')
       \<and> (\<forall>s e result_map.
             availability_tool db g clk did (Day s) slot_minutes (Day e) = Some (Inr (Dates result_map))
             \<and> min s e \<le> d \<and> d \<le> max s e
             \<longrightarrow> (d, []) \<in> set result_map)"
proof -
  note c = compute_freebusy_fails[OF sched run fb, of clk]
  have single: "availability_tool db g clk did (Day d) slot_minutes Blank = Some (Inr (Slots [] (Some freebusy_error)))"
    using doc c by (simp add: availability_tool_def)
  have range: "(d, []) \<in> set result_map"
    if "availability_tool db g clk did (Day s) slot_minutes (Day e) = Some (Inr (Dates result_map))"
      and "min s e \<le> d" and "d \<le> max s e" for s e result_map
  proof -
    from that(1) doc have "range_loop g clk doc slot_minutes (min s e) (max s e) [] = Some (Inr result_map)"
      by (auto simp: availability_tool_def split: option.splits sum.splits)
    from range_loop_result[OF this] that(2,3) c show ?thesis
      by (auto simp: image_iff intro!: bexI[of _ d])
  qed
  have codes: "fst freebusy_error \<noteq> fst no_schedule"
    "fst freebusy_error \<noteq> fst (no_slots ''no_future_slots'')"
    "fst freebusy_error \<noteq> fst (no_slots ''fully_booked'')"
    by (simp_all add: freebusy_error_def no_schedule_def no_slots_def)
  show ?thesis
    using single range codes by blast
qed

text \<open>Doctor D with a calendar whose query raises.\<close>

theorem freebusy_failure_reported_witness:
  "availability_tool [doctor_D] (calendar_answering None) (clock_at 0) ''D'' (Day tuesday) 30 Blank
     = Some (Inr (Slots [] (Some freebusy_error)))
   \<and> availability_tool [doctor_D] (calendar_answering None) (clock_at 0) ''D'' (Day tuesday) 30 (Day tuesday)
     = Some (Inr (Dates [(tuesday, [])]))
   \<and> (tuesday, []) \<in> set [(tuesday, [] :: string list)]"
proof -
  have fb: "freebusy (calendar_answering None) (calendar_id doctor_D)
              (wall tuesday 11 0) (wall tuesday 13 0) = None"
    by (rule freebusy_answering)
  note c = compute_freebusy_fails[OF sched_D day_D fb]
  have range: "availability_tool [doctor_D] (calendar_answering None) (clock_at 0) ''D'' (Day tuesday) 30 (Day tuesday)
     = Some (Inr (Dates [(tuesday, [])]))"
    by (simp add: availability_tool_def find_doctor_D range_loop.simps c tuesday_not_last)
  from freebusy_failure_reported[OF find_doctor_D sched_D day_D fb, of "clock_at 0"] range
  show ?thesis by auto
qed

text \<open>
  C3 as stated covers date ranges. A range query over the Tuesday answers the same for a
  calendar whose query fails and for one that reports the whole window busy.
\<close>

theorem range_query_hides_failure_counterexample:
  "freebusy (calendar_answering None) (calendar_id doctor_D) (wall tuesday 11 0) (wall tuesday 13 0) = None
   \<and> availability_tool [doctor_D] (calendar_answering None) (clock_at 0) ''D'' (Day tuesday) 30 (Day tuesday)
     = Some (Inr (Dates [(tuesday, [])]))
   \<and> availability_tool [doctor_D] (calendar_answering (Some [(wall tuesday 11 0, wall tuesday 13 0)]))
        (clock_at 0) ''D'' (Day tuesday) 30 (Day tuesday)
     = Some (Inr (Dates [(tuesday, [])]))"
proof -
  have fb: "freebusy (calendar_answering None) (calendar_id doctor_D)
              (wall tuesday 11 0) (wall tuesday 13 0) = None"
    by (rule freebusy_answering)
  have fb2: "freebusy (calendar_answering (Some [(wall tuesday 11 0, wall tuesday 13 0)])) (calendar_id doctor_D)
              (wall tuesday 11 0) (wall tuesday 13 0) = Some [(wall tuesday 11 0, wall tuesday 13 0)]"
    by (rule freebusy_answering)
  have c2: "compute_free_slots_for_date (calendar_answering (Some [(wall tuesday 11 0, wall tuesday 13 0)]))
        (clock_at 0) doctor_D (Some tuesday) 30 = Some (Inr ([], Some (no_slots ''fully_booked'')))"
    unfolding compute_after_freebusy[OF sched_D day_D fb2]
    by (simp add: Let_def clock_at_def date_of_def tuesday_def wall_cmp)
  show ?thesis
    by (simp add: fb availability_tool_def find_doctor_D range_loop.simps
          compute_freebusy_fails[OF sched_D day_D fb] c2 tuesday_not_last)
qed

section \<open>The booking checks\<close>

lemma within_loop_iff:
  "within_loop s e ws \<longleftrightarrow>
     (\<exists>a b. Some (a, b) \<in> set ws \<and> combine (date_of s) a \<le> s \<and> e \<le> combine (date_of s) b)"
  by (induction s e ws rule: within_loop.induct) auto

lemma within_schedule_iff:
  "within_schedule doc s e \<longleftrightarrow>
     (\<exists>windows a b. weekly_schedule doc (day_name_of (date_of s)) = Some windows
        \<and> Some (a, b) \<in> set windows
        \<and> combine (date_of s) a \<le> s \<and> e \<le> combine (date_of s) b)"
proof (cases "weekly_schedule doc (day_name_of (date_of s))")
  case None
  then show ?thesis by (simp add: within_schedule_def)
next
  case (Some ws)
  then show ?thesis by (simp add: within_schedule_def within_loop_iff)
qed

lemma book_after_local_checks:
  assumes doc: "find_doctor db (b_doctor_id b) = Some doc"
    and start: "b_start b = Some s" and "end": "b_end b = Some e"
    and order: "s < e"
    and mail: "valid_email (b_patient_email b)"
    and lead: "now_local clk + MIN_LEAD_MINUTES clk * us_per_minute \<le> s"
  shows "appointment_book_tool ops db g clk b =
     (if \<not> within_schedule doc s e then Some (Inl OutsideClinicHours, g)
      else if slot_conflicts_with_calendar g doc s e then Some (Inl NoLongerAvailable, g)
      else (case compute_free_slots_for_date g clk doc (Some (date_of s)) ((e - s) div us_per_minute) of
              None \<Rightarrow> None
            | Some (Inl x) \<Rightarrow>
                Some (insert_event g doc (build_event ops doc b s e)
                        (visit_mode_of ops b = lit ''online'' \<and> b_create_meet b))
            | Some (Inr (slots_for_day, _)) \<Rightarrow>
                if strftime_HM s \<notin> set slots_for_day then Some (Inl NotAListedSlot, g)
                else Some (insert_event g doc (build_event ops doc b s e)
                        (visit_mode_of ops b = lit ''online'' \<and> b_create_meet b))))"
  using assms by (auto simp: appointment_book_tool_def Let_def split: option.splits sum.splits)

lemma insert_event_not_conflict: "fst (insert_event g doc ev c) \<noteq> Inl NoLongerAvailable"
  by (auto simp: insert_event_def Let_def split: sum.splits)

lemma request_D_fields:
  "b_doctor_id (request_D s e mail) = ''D''"
  "b_start (request_D s e mail) = Some s"
  "b_end (request_D s e mail) = Some e"
  "b_patient_email (request_D s e mail) = mail"
  "b_visit_mode (request_D s e mail) = None"
  "b_create_meet (request_D s e mail) = False"
  by (simp_all add: request_D_def)

lemma find_doctor_request: "find_doctor [doctor_D] (b_doctor_id (request_D s e mail)) = Some doctor_D"
  by (simp add: request_D_fields find_doctor_D)

lemma valid_pat: "valid_email (lit ''pat@mail.example'')"
  by (simp add: valid_email_def lit_def)

lemma monday_before:
  "now_local (clock_at (wall (tuesday - 1) 9 0))
     + MIN_LEAD_MINUTES (clock_at (wall (tuesday - 1) 9 0)) * us_per_minute
    \<le> wall tuesday h m" if "0 \<le> h * 60 + m" for h m
  using that by (simp add: clock_at_def wall_def hm_def combine_def)

lemma within_D:
  assumes "0 \<le> h * 60 + m" "h * 60 + m < 1440"
  shows "within_schedule doctor_D (wall tuesday h m) (wall tuesday h' m')
         \<longleftrightarrow> 660 \<le> h * 60 + m \<and> h' * 60 + m' \<le> 780"
  using assms
  by (simp add: within_schedule_def date_of_wall sched_D) (auto simp: wall_def hm_def combine_def)

lemma insert_reply_answering: "insert_reply (calendar_answering reply) c = Inr ''ev2''"
  by (simp add: calendar_answering_def)

lemma strftime_1115: "strftime_HM (wall tuesday 11 15) = ''11:15''"
  by (simp add: strftime_HM_def wall_def hm_def combine_def tuesday_def two_digits_def digit_char_def)

lemma free_day_D:
  "compute_free_slots_for_date (calendar_answering (Some [])) (clock_at (wall (tuesday - 1) 9 0))
      doctor_D (Some tuesday) 30
   = Some (Inr ([''11:00'', ''11:30'', ''12:00'', ''12:30''], None))"
proof -
  have fb: "freebusy (calendar_answering (Some [])) (calendar_id doctor_D)
              (wall tuesday 11 0) (wall tuesday 13 0) = Some []"
    by (rule freebusy_answering)
  show ?thesis
    unfolding compute_after_freebusy[OF sched_D day_D fb]
    by (simp add: Let_def strftime_D clock_at_def date_of_wall wall_cmp)
qed

text \<open>
  C5, as the code has it. A booking request that passes the earlier checks (known doctor,
  start and end that parse with the end after the start, a well-formed e-mail address, the
  lead time) and whose interval lies within no parsed window of the start's weekday fails
  with the "outside clinic hours" error, whatever the calendar answers: the gateway is
  arbitrary and comes back unchanged.
\<close>

theorem outside_hours_rejected:
  assumes doc: "find_doctor db (b_doctor_id b) = Some doc"
    and start: "b_start b = Some s" and "end": "b_end b = Some e"
    and order: "s < e"
    and mail: "valid_email (b_patient_email b)"
    and lead: "now_local clk + MIN_LEAD_MINUTES clk * us_per_minute \<le> s"
    and outside: "\<not> (\<exists>windows start_t end_t.
                      weekly_schedule doc (day_name_of (date_of s)) = Some windows
                      \<and> Some (start_t, end_t) \<in> set windows
                      \<and> combine (date_of s) start_t \<le> s \<and> e \<le> combine (date_of s) end_t)"
  shows "appointment_book_tool ops db g clk b = Some (Inl OutsideClinicHours, g)"
proof -
  from outside have "\<not> within_schedule doc s e"
    unfolding within_schedule_iff by blast
  then show ?thesis
    by (simp add: book_after_local_checks[OF doc start "end" order mail lead])
qed

text \<open>Doctor D, Tuesday 14:00-14:30, asked on the Monday, with a calendar that fails.\<close>

theorem outside_hours_rejected_witness:
  "appointment_book_tool ascii_ops [doctor_D] (calendar_answering None) (clock_at (wall (tuesday - 1) 9 0))
     (request_D (wall tuesday 14 0) (wall tuesday 14 30) (lit ''pat@mail.example''))
   = Some (Inl OutsideClinicHours, calendar_answering None)"
proof -
  have outside: "\<not> (\<exists>windows start_t end_t.
      weekly_schedule doctor_D (day_name_of (date_of (wall tuesday 14 0))) = Some windows
      \<and> Some (start_t, end_t) \<in> set windows
      \<and> combine (date_of (wall tuesday 14 0)) start_t \<le> wall tuesday 14 0
      \<and> wall tuesday 14 30 \<le> combine (date_of (wall tuesday 14 0)) end_t)"
    by (simp add: date_of_wall) (simp add: sched_D, simp add: wall_def hm_def combine_def)
  show ?thesis
    by (rule outside_hours_rejected[OF find_doctor_request request_D_fields(2) request_D_fields(3) _ _ _ outside])
       (simp_all add: wall_cmp request_D_fields valid_pat monday_before)
qed

text \<open>
  C5 as stated covers every request outside the windows. The same request made on the
  Wednesday after is outside the windows and fails with the lead-time error instead.
\<close>

theorem earlier_check_first_counterexample:
  "\<not> within_schedule doctor_D (wall tuesday 14 0) (wall tuesday 14 30)
   \<and> appointment_book_tool ascii_ops [doctor_D] (calendar_answering (Some [])) (clock_at (wall (tuesday + 1) 9 0))
       (request_D (wall tuesday 14 0) (wall tuesday 14 30) (lit ''pat@mail.example''))
     = Some (Inl (LeadTime 0), calendar_answering (Some []))"
proof -
  have "wall tuesday 14 0 < now_local (clock_at (wall (tuesday + 1) 9 0))
          + MIN_LEAD_MINUTES (clock_at (wall (tuesday + 1) 9 0)) * us_per_minute"
    by (simp add: clock_at_def wall_def hm_def combine_def)
  then show ?thesis
    by (simp add: within_D appointment_book_tool_def find_doctor_D request_D_fields
          valid_pat wall_cmp) (simp add: clock_at_def)
qed

text \<open>
  C4, as the code has it. For a request that passes the checks before the preflight, the
  answer is the "no longer available" error exactly when the fresh free/busy query over
  (start, end) fails or reports a busy interval that overlaps (start, end): a failure of the
  provider is answered like a conflict.
\<close>

theorem conflict_error_iff:
  assumes doc: "find_doctor db (b_doctor_id b) = Some doc"
    and start: "b_start b = Some s" and "end": "b_end b = Some e"
    and order: "s < e"
    and mail: "valid_email (b_patient_email b)"
    and lead: "now_local clk + MIN_LEAD_MINUTES clk * us_per_minute \<le> s"
    and inside: "within_schedule doc s e"
  shows "appointment_book_tool ops db g clk b = Some (Inl NoLongerAvailable, g)
         \<longleftrightarrow> freebusy g (calendar_id doc) s e = None
             \<or> (\<exists>busy. freebusy g (calendar_id doc) s e = Some busy
                  \<and> (\<exists>(b_start, b_end) \<in> set busy. s < b_end \<and> e > b_start))"
proof -
  have c: "slot_conflicts_with_calendar g doc s e
           \<longleftrightarrow> freebusy g (calendar_id doc) s e = None
             \<or> (\<exists>busy. freebusy g (calendar_id doc) s e = Some busy
                  \<and> (\<exists>(b_start, b_end) \<in> set busy. s < b_end \<and> e > b_start))"
    by (auto simp: slot_conflicts_with_calendar_def overlaps_iff split: option.splits)
  have "appointment_book_tool ops db g clk b = Some (Inl NoLongerAvailable, g)
        \<longleftrightarrow> slot_conflicts_with_calendar g doc s e"
    using inside insert_event_not_conflict[of g doc]
    by (auto simp: book_after_local_checks[OF doc start "end" order mail lead] prod_eq_iff
          split: option.splits sum.splits)
  with c show ?thesis by simp
qed

text \<open>The specification's example: booking D at 12:00-12:30 while 12:00-12:30 is busy.\<close>

theorem conflict_error_iff_witness:
  "appointment_book_tool ascii_ops [doctor_D] (calendar_answering (Some [(wall tuesday 12 0, wall tuesday 12 30)]))
     (clock_at (wall (tuesday - 1) 9 0))
     (request_D (wall tuesday 12 0) (wall tuesday 12 30) (lit ''pat@mail.example''))
   = Some (Inl NoLongerAvailable, calendar_answering (Some [(wall tuesday 12 0, wall tuesday 12 30)]))"
proof -
  have "appointment_book_tool ascii_ops [doctor_D] (calendar_answering (Some [(wall tuesday 12 0, wall tuesday 12 30)]))
     (clock_at (wall (tuesday - 1) 9 0))
     (request_D (wall tuesday 12 0) (wall tuesday 12 30) (lit ''pat@mail.example''))
   = Some (Inl NoLongerAvailable, calendar_answering (Some [(wall tuesday 12 0, wall tuesday 12 30)]))
   \<longleftrightarrow> freebusy (calendar_answering (Some [(wall tuesday 12 0, wall tuesday 12 30)]))
         (calendar_id doctor_D) (wall tuesday 12 0) (wall tuesday 12 30) = None
       \<or> (\<exists>busy. freebusy (calendar_answering (Some [(wall tuesday 12 0, wall tuesday 12 30)]))
                    (calendar_id doctor_D) (wall tuesday 12 0) (wall tuesday 12 30) = Some busy
               \<and> (\<exists>(b_start, b_end) \<in> set busy. wall tuesday 12 0 < b_end \<and> wall tuesday 12 30 > b_start))"
    by (rule conflict_error_iff[OF find_doctor_request request_D_fields(2) request_D_fields(3)])
       (simp_all add: wall_cmp request_D_fields valid_pat monday_before within_D)
  then show ?thesis
    by (simp add: freebusy_answering wall_cmp)
qed

text \<open>
  C4 as stated keeps a provider failure apart from the conflict error. With a calendar
  whose query raises, booking 11:00-11:30 answers "no longer available".
\<close>

theorem provider_failure_as_conflict_counterexample:
  "freebusy (calendar_answering None) (calendar_id doctor_D) (wall tuesday 11 0) (wall tuesday 11 30) = None
   \<and> appointment_book_tool ascii_ops [doctor_D] (calendar_answering None) (clock_at (wall (tuesday - 1) 9 0))
       (request_D (wall tuesday 11 0) (wall tuesday 11 30) (lit ''pat@mail.example''))
     = Some (Inl NoLongerAvailable, calendar_answering None)"
proof -
  have "appointment_book_tool ascii_ops [doctor_D] (calendar_answering None) (clock_at (wall (tuesday - 1) 9 0))
       (request_D (wall tuesday 11 0) (wall tuesday 11 30) (lit ''pat@mail.example''))
     = Some (Inl NoLongerAvailable, calendar_answering None)"
    by (subst book_after_local_checks[OF find_doctor_request request_D_fields(2) request_D_fields(3)])
       (simp_all add: wall_cmp request_D_fields valid_pat monday_before within_D
          slot_conflicts_with_calendar_def freebusy_answering)
  then show ?thesis by (simp add: freebusy_answering)
qed

section \<open>The guard of the booking\<close>

lemma windows_loop_returns_pos:
  assumes "windows_loop d n ws st = Some (Inr st')"
    and "Some (a, b) \<in> set ws" and "a \<le> b"
  shows "0 < n"
  using assms(1,2)
proof (induction ws arbitrary: st)
  case Nil
  then show ?case by simp
next
  case (Cons w ws)
  show ?case
  proof (cases w)
    case None
    with Cons show ?thesis by auto
  next
    case (Some p)
    obtain s e where p: "p = (s, e)" by (cases p)
    obtain rs ea la where st: "st = (rs, ea, la)" by (cases st)
    from Cons.prems(1) Some p st obtain r ea1 la1 where
      r: "tile (combine d s) n (combine d e) rs = Some (Inr r)"
      and rest: "windows_loop d n ws (r, ea1, la1) = Some (Inr st')"
      by (auto simp: Let_def split: option.splits sum.splits)
    show ?thesis
    proof (cases "(a, b) = (s, e)")
      case True
      with assms(3) have "s \<le> e" by simp
      with tile_returns[OF r] show ?thesis
        by (cases "0 < n") (auto simp: combine_def not_less mult_le_0_iff)
    next
      case False
      with Cons.prems(2) Some p have "Some (a, b) \<in> set ws" by auto
      from Cons.IH[OF rest this] show ?thesis .
    qed
  qed
qed

lemma free_D: "\<not> slot_conflicts_with_calendar (calendar_answering (Some [])) doc s e"
  by (simp add: slot_conflicts_with_calendar_def freebusy_answering)

lemma insert_answering:
  "fst (insert_event (calendar_answering reply) doc ev c) = Inr ''ev2''"
  by (simp add: insert_event_def insert_reply_answering)

lemma day_name_last_friday: "day_name_of last_friday = ''Fri''"
  by (simp add: day_name_of_def day_names_def last_friday_def)

lemma run_F:
  "windows_loop last_friday 720 [Some (hm 0 0, hm 23 0)] ([], None, None) = Some (Inl OverflowError)"
  by (simp add: tile.simps plus_minutes_def timedelta_minutes_def add_timedelta_def
        hm_def combine_def last_friday_def datetime_min_def datetime_max_def)

lemma slots_F:
  "window_slots last_friday 720 (Some (hm 0 0, hm 23 0)) = [(wall last_friday 0 0, wall last_friday 12 0)]"
  by (simp add: window_slots_tiles tiles_def wall_def hm_def combine_def)

lemma strftime_F:
  "strftime_HM (wall last_friday 0 0) = ''00:00''"
  "strftime_HM (wall last_friday 0 30) = ''00:30''"
  by (simp_all add: strftime_HM_def wall_def hm_def combine_def last_friday_def two_digits_def digit_char_def)

text \<open>
  C6, as the code has it. For a request that passes the earlier checks (through the
  preflight) the guard recomputes the free slots of the start's day, with the whole minutes
  of \<open>end - start\<close> as the slot size. When the recomputation returns, its candidates are the
  tiling of the day's windows and its list holds the \<^verbatim>\<open>HH:MM\<close> starts of the candidates that
  pass the lead-time filter and overlap no busy interval of the envelope query (no start at
  all when that query fails); the request is rejected when the \<^verbatim>\<open>HH:MM\<close> of its start is not
  in the list and goes on to the insert when it is. When the recomputation raises, the
  handler of the guard lets the request go on to the insert.
\<close>

theorem listed_slot_guard:
  assumes doc: "find_doctor db (b_doctor_id b) = Some doc"
    and start: "b_start b = Some s" and "end": "b_end b = Some e"
    and order: "s < e"
    and mail: "valid_email (b_patient_email b)"
    and lead: "now_local clk + MIN_LEAD_MINUTES clk * us_per_minute \<le> s"
    and inside: "within_schedule doc s e"
    and free: "\<not> slot_conflicts_with_calendar g doc s e"
    and sched: "weekly_schedule doc (day_name_of (date_of s)) = Some windows"
  shows
    "(\<forall>slot_ranges earliest latest busy.
        windows_loop (date_of s) ((e - s) div us_per_minute) windows ([], None, None)
          = Some (Inr (slot_ranges, Some earliest, Some latest))
        \<and> freebusy g (calendar_id doc) earliest latest = Some busy
        \<longrightarrow> slot_ranges = concat (map (window_slots (date_of s) ((e - s) div us_per_minute)) windows)
           \<and> appointment_book_tool ops db g clk b =
               (if strftime_HM s \<in> set (map (strftime_HM \<circ> fst)
                     (filter (\<lambda>(a, b). \<not> (date_of s = date_of (now_local clk)
                                               \<and> a < now_local clk + MIN_LEAD_MINUTES clk * us_per_minute)
                                      \<and> \<not> (\<exists>(b_start, b_end) \<in> set busy. a < b_end \<and> b > b_start))
                        slot_ranges))
                then Some (insert_event g doc (build_event ops doc b s e)
                             (visit_mode_of ops b = lit ''online'' \<and> b_create_meet b))
                else Some (Inl NotAListedSlot, g)))
     \<and> (\<forall>slot_ranges earliest latest.
          windows_loop (date_of s) ((e - s) div us_per_minute) windows ([], None, None)
            = Some (Inr (slot_ranges, Some earliest, Some latest))
          \<and> freebusy g (calendar_id doc) earliest latest = None
          \<longrightarrow> appointment_book_tool ops db g clk b = Some (Inl NotAListedSlot, g))
     \<and> (\<forall>x. windows_loop (date_of s) ((e - s) div us_per_minute) windows ([], None, None) = Some (Inl x)
          \<longrightarrow> appointment_book_tool ops db g clk b
              = Some (insert_event g doc (build_event ops doc b s e)
                        (visit_mode_of ops b = lit ''online'' \<and> b_create_meet b)))"
proof -
  let ?n = "(e - s) div us_per_minute"
  let ?d = "date_of s"
  note book = book_after_local_checks[OF doc start "end" order mail lead, of ops g]
  from inside sched obtain a c where w: "Some (a, c) \<in> set windows"
    "combine ?d a \<le> s" "e \<le> combine ?d c"
    unfolding within_schedule_iff by auto
  with order have ac: "a \<le> c" by (simp add: combine_def)
  from w(1) have ne: "windows \<noteq> []" by auto
  then obtain w0 ws where ws: "windows = w0 # ws" by (cases windows) auto
  have part1: "slot_ranges = concat (map (window_slots ?d ?n) windows)
           \<and> appointment_book_tool ops db g clk b =
               (if strftime_HM s \<in> set (map (strftime_HM \<circ> fst)
                     (filter (\<lambda>(a, b). \<not> (?d = date_of (now_local clk)
                                               \<and> a < now_local clk + MIN_LEAD_MINUTES clk * us_per_minute)
                                      \<and> \<not> (\<exists>(b_start, b_end) \<in> set busy. a < b_end \<and> b > b_start))
                        slot_ranges))
                then Some (insert_event g doc (build_event ops doc b s e)
                             (visit_mode_of ops b = lit ''online'' \<and> b_create_meet b))
                else Some (Inl NotAListedSlot, g))"
    if run: "windows_loop ?d ?n windows ([], None, None) = Some (Inr (slot_ranges, Some earliest, Some latest))"
      and fb: "freebusy g (calendar_id doc) earliest latest = Some busy"
    for slot_ranges earliest latest busy
  proof -
    from windows_loop_returns_pos[OF run w(1) ac] have pos: "0 < ?n" .
    from windows_loop_returns[OF run pos]
    have rs: "slot_ranges = concat (map (window_slots ?d ?n) windows)" by simp
    have c: "compute_free_slots_for_date g clk doc (Some ?d) ?n =
      Some (Inr (free_loop (?d = date_of (now_local clk)) (now_local clk + MIN_LEAD_MINUTES clk * us_per_minute)
                   busy slot_ranges,
                 if free_loop (?d = date_of (now_local clk)) (now_local clk + MIN_LEAD_MINUTES clk * us_per_minute)
                      busy slot_ranges = []
                 then Some (no_slots (if \<not> (\<exists>rng \<in> set slot_ranges. \<not> ?d = date_of (now_local clk)
                          \<or> fst rng \<ge> now_local clk + MIN_LEAD_MINUTES clk * us_per_minute)
                        then ''no_future_slots'' else ''fully_booked''))
                 else None))"
      unfolding compute_after_freebusy[OF sched run fb] by (simp add: Let_def)
    show ?thesis
      using rs inside free
      by (simp add: book c free_loop_filter overlaps_iff)
  qed
  have part2: "appointment_book_tool ops db g clk b = Some (Inl NotAListedSlot, g)"
    if run: "windows_loop ?d ?n windows ([], None, None) = Some (Inr (slot_ranges, Some earliest, Some latest))"
      and fb: "freebusy g (calendar_id doc) earliest latest = None"
    for slot_ranges earliest latest
    using inside free by (simp add: book compute_freebusy_fails[OF sched run fb])
  have part3: "appointment_book_tool ops db g clk b
              = Some (insert_event g doc (build_event ops doc b s e)
                        (visit_mode_of ops b = lit ''online'' \<and> b_create_meet b))"
    if "windows_loop ?d ?n windows ([], None, None) = Some (Inl x)" for x
    using that inside free sched ws
    by (simp add: book compute_free_slots_for_date_def)
  from part1 part2 part3 show ?thesis by blast
qed

text \<open>
  Doctor D on a free Tuesday: 11:15-11:45 lies within the window but is no slot of the
  30-minute grid and is rejected; 11:00-11:30 is booked.
\<close>

theorem listed_slot_guard_witness:
  "strftime_HM (wall tuesday 11 15) = ''11:15''
   \<and> appointment_book_tool ascii_ops [doctor_D] (calendar_answering (Some [])) (clock_at (wall (tuesday - 1) 9 0))
       (request_D (wall tuesday 11 15) (wall tuesday 11 45) (lit ''pat@mail.example''))
     = Some (Inl NotAListedSlot, calendar_answering (Some []))
   \<and> strftime_HM (wall tuesday 11 0) = ''11:00''
   \<and> fst (the (appointment_book_tool ascii_ops [doctor_D] (calendar_answering (Some []))
               (clock_at (wall (tuesday - 1) 9 0))
               (request_D (wall tuesday 11 0) (wall tuesday 11 30) (lit ''pat@mail.example''))))
     = Inr ''ev2''"
proof -
  let ?g = "calendar_answering (Some [])"
  let ?clk = "clock_at (wall (tuesday - 1) 9 0)"
  have fb: "freebusy ?g (calendar_id doctor_D) (wall tuesday 11 0) (wall tuesday 13 0) = Some []"
    by (rule freebusy_answering)
  have d: "date_of (wall tuesday 11 15) = tuesday" "date_of (wall tuesday 11 0) = tuesday"
    by (simp_all add: date_of_wall)
  have n: "(wall tuesday 11 45 - wall tuesday 11 15) div us_per_minute = 30"
    "(wall tuesday 11 30 - wall tuesday 11 0) div us_per_minute = 30"
    by (simp_all add: wall_def hm_def combine_def)
  have today: "tuesday \<noteq> date_of (now_local ?clk)"
    by (simp add: clock_at_def date_of_wall)
  note t1 = listed_slot_guard[OF find_doctor_request request_D_fields(2) request_D_fields(3) _ _ _ _ free_D,
        of "wall tuesday 11 15" "wall tuesday 11 45" "lit ''pat@mail.example''" ?clk
           "[Some (hm 11 0, hm 13 0)]" ascii_ops, unfolded d n]
  have a: "appointment_book_tool ascii_ops [doctor_D] ?g ?clk
       (request_D (wall tuesday 11 15) (wall tuesday 11 45) (lit ''pat@mail.example''))
     = Some (Inl NotAListedSlot, ?g)"
    using t1 day_D fb today
    by (simp add: wall_cmp request_D_fields valid_pat monday_before within_D sched_D
          strftime_D strftime_1115)
  note t2 = listed_slot_guard[OF find_doctor_request request_D_fields(2) request_D_fields(3) _ _ _ _ free_D,
        of "wall tuesday 11 0" "wall tuesday 11 30" "lit ''pat@mail.example''" ?clk
           "[Some (hm 11 0, hm 13 0)]" ascii_ops, unfolded d n]
  have b: "fst (the (appointment_book_tool ascii_ops [doctor_D] ?g ?clk
               (request_D (wall tuesday 11 0) (wall tuesday 11 30) (lit ''pat@mail.example''))))
     = Inr ''ev2''"
    using t2 day_D fb today
    by (simp add: wall_cmp request_D_fields valid_pat monday_before within_D sched_D
          strftime_D insert_answering)
  from a b show ?thesis by (simp add: strftime_1115 strftime_D)
qed

text \<open>
  C6 as stated rejects every request whose start is not in the recomputed list. On the last
  day of the calendar, with doctor F's window 00:00-23:00, the request 00:30-12:30 starts at
  no candidate of the 720-minute tiling, the recomputation raises \<^verbatim>\<open>OverflowError\<close> at the
  second sum, and the booking is inserted.
\<close>

theorem guard_skipped_counterexample:
  "strftime_HM (wall last_friday 0 30)
     \<notin> set (map (strftime_HM \<circ> fst) (window_slots last_friday 720 (Some (hm 0 0, hm 23 0))))
   \<and> fst (the (appointment_book_tool ascii_ops [doctor_F] (calendar_answering (Some []))
               (clock_at (wall (last_friday - 1) 9 0))
               ((request_D (wall last_friday 0 30) (wall last_friday 12 30) (lit ''pat@mail.example''))
                  \<lparr>b_doctor_id := ''F''\<rparr>)))
       = Inr ''ev2''"
proof -
  let ?g = "calendar_answering (Some [])"
  have listed: "strftime_HM (wall last_friday 0 30)
     \<notin> set (map (strftime_HM \<circ> fst) (window_slots last_friday 720 (Some (hm 0 0, hm 23 0))))"
    by (simp add: slots_F strftime_F)
  have dF: "date_of (wall last_friday 0 30) = last_friday" by (simp add: date_of_wall)
  have schedF: "weekly_schedule doctor_F (day_name_of last_friday) = Some [Some (hm 0 0, hm 23 0)]"
    by (simp add: doctor_F_def day_name_last_friday)
  have insideF: "within_schedule doctor_F (wall last_friday 0 30) (wall last_friday 12 30)"
    by (simp add: within_schedule_def dF schedF) (simp add: wall_def hm_def combine_def)
  have nF: "(wall last_friday 12 30 - wall last_friday 0 30) div us_per_minute = 720"
    by (simp add: wall_def hm_def combine_def)
  have leadF: "now_local (clock_at (wall (last_friday - 1) 9 0))
      + MIN_LEAD_MINUTES (clock_at (wall (last_friday - 1) 9 0)) * us_per_minute \<le> wall last_friday 0 30"
    by (simp add: clock_at_def wall_def hm_def combine_def)
  have cF: "compute_free_slots_for_date ?g (clock_at (wall (last_friday - 1) 9 0)) doctor_F
              (Some last_friday) 720 = Some (Inl OverflowError)"
    by (simp add: compute_free_slots_for_date_def schedF run_F del: windows_loop.simps)
  have bookF: "fst (the (appointment_book_tool ascii_ops [doctor_F] ?g
               (clock_at (wall (last_friday - 1) 9 0))
               ((request_D (wall last_friday 0 30) (wall last_friday 12 30) (lit ''pat@mail.example''))
                  \<lparr>b_doctor_id := ''F''\<rparr>)))
       = Inr ''ev2''"
    using leadF
    by (subst book_after_local_checks[where doc = doctor_F and s = "wall last_friday 0 30"
              and e = "wall last_friday 12 30"])
       (simp_all add: request_D_def find_doctor_def doctor_F_def[THEN arg_cong, of doctor_id]
          valid_pat wall_cmp insideF free_D dF nF cF insert_answering)
  from listed bookF show ?thesis by simp
qed

section \<open>Ownership, cancel, reschedule and list\<close>

lemma contains_iff: "contains sub s \<longleftrightarrow> sublist sub s"
  by (induction s) (auto simp: sublist_Cons_right)

lemma attendee_loop_iff:
  "attendee_loop ops pe as \<longleftrightarrow>
     (\<exists>a \<in> set as. str_strip ops (str_lower ops (case a of None \<Rightarrow> [] | Some e \<Rightarrow> e)) = pe)"
  by (induction as) auto

lemma no_owner_for_empty: "\<not> event_contains_patient ops ev []"
  by (simp add: event_contains_patient_def)

lemma owner_iff:
  "patient_email \<noteq> [] \<Longrightarrow>
     event_contains_patient ops ev patient_email \<longleftrightarrow> names_patient ops ev patient_email"
  by (auto simp: event_contains_patient_def names_patient_def Let_def attendee_loop_iff contains_iff)

lemma events_loop_filter:
  "events_loop ops d pe items =
     map (\<lambda>(eid, ev). \<lparr> a_doctor_id = doctor_id d, a_event_id = eid, a_start = ev_start ev,
                        a_end = ev_end ev, a_summary = summary ev \<rparr>)
       (filter (\<lambda>(eid, ev). event_contains_patient ops ev pe) items)"
  by (induction ops d pe items rule: events_loop.induct) simp_all

lemma events_loop_owned:
  assumes "pe \<noteq> []"
  shows "events_loop ops d pe items =
     map (\<lambda>(eid, ev). \<lparr> a_doctor_id = doctor_id d, a_event_id = eid, a_start = ev_start ev,
                        a_end = ev_end ev, a_summary = summary ev \<rparr>)
       (filter (\<lambda>(eid, ev). names_patient ops ev pe) items)"
  using assms by (simp add: events_loop_filter owner_iff)

lemma calendars_loop_concat:
  assumes "pe \<noteq> []"
  shows "calendars_loop ops g pe time_min time_max calendars =
     concat (map (\<lambda>d. case listing g (calendar_id d) time_min time_max of
                         None \<Rightarrow> []
                       | Some items \<Rightarrow>
                           map (\<lambda>(eid, ev). \<lparr> a_doctor_id = doctor_id d, a_event_id = eid,
                                              a_start = ev_start ev, a_end = ev_end ev,
                                              a_summary = summary ev \<rparr>)
                             (filter (\<lambda>(eid, ev). names_patient ops ev pe) items)) calendars)"
  using assms
  by (induction calendars) (simp_all add: events_loop_owned split: option.splits)



lemma pat_owns_booked: "event_contains_patient ascii_ops booked_event (lit ''pat@mail.example'')"
  by code_simp

lemma pat_owns_invited: "event_contains_patient ascii_ops invited_event (lit ''pat@mail.example'')"
  by code_simp

lemma pat_not_blank:
  "(lit ''pat@mail.example'') \<noteq> []"
  "str_strip ascii_ops (str_lower ascii_ops (lit ''pat@mail.example'')) \<noteq> []"
  by (simp_all add: lit_def ascii_ops_def ascii_lower_def ascii_strip_def)

lemma events_answering:
  "events (calendar_answering reply) (''cal-D'', ''ev1'') = Some booked_event"
  "write_error (calendar_answering reply) = None"
  by (simp_all add: calendar_answering_def)

lemma calendar_D: "calendar_id doctor_D = ''cal-D''"
  by (simp add: doctor_D_def)

lemma listing_answering:
  "listing (calendar_answering reply) ''cal-D'' t1 t2
     = Some [(''ev1'', booked_event), (''ev3'', invited_event)]"
  "service_error (calendar_answering reply) = None"
  by (simp_all add: calendar_answering_def)


lemma list_D_returns:
  "\<exists>found. list_appointments_tool ascii_ops [doctor_D] g (clock_at (wall (tuesday - 1) 9 0)) (Some ''D'') (Some (lit ''pat@mail.example'')) 30
            = Inr (Inr found)" if "service_error g = None"
  using that pat_not_blank(1)
  by (simp add: list_appointments_tool_def find_doctor_D timedelta_days_def add_timedelta_def
        clock_at_def wall_def hm_def combine_def tuesday_def datetime_min_def datetime_max_def)



text \<open>
  C10, as the code has it. For a patient e-mail that is not blank (non-empty, also after
  lowercasing and trimming) the predicate holds iff the e-mail, lowercased and trimmed,
  equals the lowercased and trimmed e-mail of some attendee or occurs as a substring of the
  lowercased description; it decides cancel and reschedule once the event is fetched, and
  the listing gives exactly the events of the queried calendars for which it holds. For the
  empty e-mail the predicate is false for every event: cancel and reschedule never succeed
  and leave the calendar unchanged, their error is the unauthorized one whenever the
  ownership check is reached (the doctor is known, the event is fetched and, for reschedule,
  the checks on the new interval pass), and the listing, as for a missing e-mail, answers
  that the e-mail is required.
\<close>

theorem ownership_predicate:
  "(patient_email \<noteq> [] \<and> str_strip ops (str_lower ops patient_email) \<noteq> [] \<longrightarrow>
       event_contains_patient ops ev patient_email = names_patient ops ev patient_email)
   \<and> (patient_email \<noteq> [] \<and> str_strip ops (str_lower ops patient_email) \<noteq> [] \<longrightarrow>
       (\<forall>d ev'. find_doctor db did = Some d \<and> events g (calendar_id d, event_id) = Some ev' \<longrightarrow>
          cancel_appointment_tool ops db g did event_id patient_email =
            (if \<not> names_patient ops ev' patient_email then (Inl Unauthorized, g)
             else (case write_error g of
                     Some msg \<Rightarrow> (Inl (CancelError msg), g)
                   | None \<Rightarrow>
                       (Inr (), g\<lparr>events := (events g)((calendar_id d, event_id) := None)\<rparr>)))))
   \<and> (patient_email \<noteq> [] \<and> str_strip ops (str_lower ops patient_email) \<noteq> [] \<longrightarrow>
       (\<forall>d s e ev'. find_doctor db did = Some d \<and> new_start = Some s \<and> new_end = Some e
          \<and> now_local clk + MIN_LEAD_MINUTES clk * us_per_minute \<le> s
          \<and> within_schedule d s e \<and> \<not> slot_conflicts_with_calendar g d s e
          \<and> events g (calendar_id d, event_id) = Some ev' \<longrightarrow>
          reschedule_tool ops db g clk did event_id new_start new_end patient_email =
            (if \<not> names_patient ops ev' patient_email then (Inl Unauthorized, g)
             else (case write_error g of
                     Some msg \<Rightarrow> (Inl (RescheduleError msg), g)
                   | None \<Rightarrow>
                       (Inr (), g\<lparr>events := (events g)((calendar_id d, event_id) \<mapsto>
                                     ev'\<lparr>ev_start := s, ev_end := e\<rparr>)\<rparr>)))))
   \<and> (patient_email \<noteq> [] \<and> str_strip ops (str_lower ops patient_email) \<noteq> [] \<longrightarrow>
       (\<forall>found. list_appointments_tool ops db g clk scope (Some patient_email) window_days
                  = Inr (Inr found) \<longrightarrow>
          found =
            concat (map (\<lambda>d. case listing g (calendar_id d) (now_local clk)
                                     (now_local clk + window_days * us_per_day) of
                                None \<Rightarrow> []
                              | Some items \<Rightarrow>
                                  map (\<lambda>(eid, ev'). \<lparr> a_doctor_id = doctor_id d, a_event_id = eid,
                                                      a_start = ev_start ev', a_end = ev_end ev',
                                                      a_summary = summary ev' \<rparr>)
                                    (filter (\<lambda>(eid, ev'). names_patient ops ev' patient_email) items))
                     (case scope of
                        None \<Rightarrow> db
                      | Some i \<Rightarrow> if i = [] then db
                                  else (case find_doctor db i of None \<Rightarrow> [] | Some d \<Rightarrow> [d])))))
   \<and> (\<not> event_contains_patient ops ev [])
   \<and> (\<exists>err. cancel_appointment_tool ops db g did event_id [] = (Inl err, g))
   \<and> (\<forall>d ev'. find_doctor db did = Some d \<and> events g (calendar_id d, event_id) = Some ev' \<longrightarrow>
       cancel_appointment_tool ops db g did event_id [] = (Inl Unauthorized, g))
   \<and> (\<exists>err. reschedule_tool ops db g clk did event_id new_start new_end [] = (Inl err, g))
   \<and> (\<forall>d s e ev'. find_doctor db did = Some d \<and> new_start = Some s \<and> new_end = Some e
          \<and> now_local clk + MIN_LEAD_MINUTES clk * us_per_minute \<le> s
          \<and> within_schedule d s e \<and> \<not> slot_conflicts_with_calendar g d s e
          \<and> events g (calendar_id d, event_id) = Some ev' \<longrightarrow>
       reschedule_tool ops db g clk did event_id new_start new_end [] = (Inl Unauthorized, g))
   \<and> (list_appointments_tool ops db g clk scope None window_days = Inr (Inl PatientEmailRequired))
   \<and> (list_appointments_tool ops db g clk scope (Some []) window_days = Inr (Inl PatientEmailRequired))"
proof (intro conjI)
  show "patient_email \<noteq> [] \<and> str_strip ops (str_lower ops patient_email) \<noteq> [] \<longrightarrow>
       event_contains_patient ops ev patient_email = names_patient ops ev patient_email"
    by (simp add: owner_iff)
  show "patient_email \<noteq> [] \<and> str_strip ops (str_lower ops patient_email) \<noteq> [] \<longrightarrow>
       (\<forall>d ev'. find_doctor db did = Some d \<and> events g (calendar_id d, event_id) = Some ev' \<longrightarrow>
          cancel_appointment_tool ops db g did event_id patient_email =
            (if \<not> names_patient ops ev' patient_email then (Inl Unauthorized, g)
             else (case write_error g of
                     Some msg \<Rightarrow> (Inl (CancelError msg), g)
                   | None \<Rightarrow>
                       (Inr (), g\<lparr>events := (events g)((calendar_id d, event_id) := None)\<rparr>))))"
    by (simp add: cancel_appointment_tool_def owner_iff)
  show "patient_email \<noteq> [] \<and> str_strip ops (str_lower ops patient_email) \<noteq> [] \<longrightarrow>
       (\<forall>d s e ev'. find_doctor db did = Some d \<and> new_start = Some s \<and> new_end = Some e
          \<and> now_local clk + MIN_LEAD_MINUTES clk * us_per_minute \<le> s
          \<and> within_schedule d s e \<and> \<not> slot_conflicts_with_calendar g d s e
          \<and> events g (calendar_id d, event_id) = Some ev' \<longrightarrow>
          reschedule_tool ops db g clk did event_id new_start new_end patient_email =
            (if \<not> names_patient ops ev' patient_email then (Inl Unauthorized, g)
             else (case write_error g of
                     Some msg \<Rightarrow> (Inl (RescheduleError msg), g)
                   | None \<Rightarrow>
                       (Inr (), g\<lparr>events := (events g)((calendar_id d, event_id) \<mapsto>
                                     ev'\<lparr>ev_start := s, ev_end := e\<rparr>)\<rparr>))))"
    by (auto simp: reschedule_tool_def owner_iff)
  show "patient_email \<noteq> [] \<and> str_strip ops (str_lower ops patient_email) \<noteq> [] \<longrightarrow>
       (\<forall>found. list_appointments_tool ops db g clk scope (Some patient_email) window_days
                  = Inr (Inr found) \<longrightarrow>
          found =
            concat (map (\<lambda>d. case listing g (calendar_id d) (now_local clk)
                                     (now_local clk + window_days * us_per_day) of
                                None \<Rightarrow> []
                              | Some items \<Rightarrow>
                                  map (\<lambda>(eid, ev'). \<lparr> a_doctor_id = doctor_id d, a_event_id = eid,
                                                      a_start = ev_start ev', a_end = ev_end ev',
                                                      a_summary = summary ev' \<rparr>)
                                    (filter (\<lambda>(eid, ev'). names_patient ops ev' patient_email) items))
                     (case scope of
                        None \<Rightarrow> db
                      | Some i \<Rightarrow> if i = [] then db
                                  else (case find_doctor db i of None \<Rightarrow> [] | Some d \<Rightarrow> [d]))))"
    by (auto simp: list_appointments_tool_def calendars_loop_concat events_loop_owned
          timedelta_days_def add_timedelta_def
        split: option.splits sum.splits if_splits)
  show "\<not> event_contains_patient ops ev []"
    by (rule no_owner_for_empty)
  show "\<exists>err. cancel_appointment_tool ops db g did event_id [] = (Inl err, g)"
    by (simp add: cancel_appointment_tool_def no_owner_for_empty split: option.splits)
  show "\<forall>d ev'. find_doctor db did = Some d \<and> events g (calendar_id d, event_id) = Some ev' \<longrightarrow>
       cancel_appointment_tool ops db g did event_id [] = (Inl Unauthorized, g)"
    by (simp add: cancel_appointment_tool_def no_owner_for_empty)
  show "\<exists>err. reschedule_tool ops db g clk did event_id new_start new_end [] = (Inl err, g)"
    by (simp add: reschedule_tool_def no_owner_for_empty split: option.splits)
  show "\<forall>d s e ev'. find_doctor db did = Some d \<and> new_start = Some s \<and> new_end = Some e
          \<and> now_local clk + MIN_LEAD_MINUTES clk * us_per_minute \<le> s
          \<and> within_schedule d s e \<and> \<not> slot_conflicts_with_calendar g d s e
          \<and> events g (calendar_id d, event_id) = Some ev' \<longrightarrow>
       reschedule_tool ops db g clk did event_id new_start new_end [] = (Inl Unauthorized, g)"
    by (auto simp: reschedule_tool_def no_owner_for_empty)
  show "list_appointments_tool ops db g clk scope None window_days = Inr (Inl PatientEmailRequired)"
    by (simp add: list_appointments_tool_def)
  show "list_appointments_tool ops db g clk scope (Some []) window_days = Inr (Inl PatientEmailRequired)"
    by (simp add: list_appointments_tool_def)
qed

text \<open>
  The events of doctor D: Pat owns \<^verbatim>\<open>ev1\<close> and \<^verbatim>\<open>ev3\<close>, may cancel or move \<^verbatim>\<open>ev1\<close> and
  lists both; the empty e-mail is refused.
\<close>

theorem ownership_predicate_witness:
  "names_patient ascii_ops booked_event (lit ''pat@mail.example'')
   \<and> cancel_appointment_tool ascii_ops [doctor_D] (calendar_answering (Some [])) ''D'' ''ev1'' (lit ''pat@mail.example'')
       = (Inr (), (calendar_answering (Some []))\<lparr>events := (events (calendar_answering (Some [])))((''cal-D'', ''ev1'') := None)\<rparr>)
   \<and> cancel_appointment_tool ascii_ops [doctor_D] (calendar_answering (Some [])) ''D'' ''ev1'' []
       = (Inl Unauthorized, (calendar_answering (Some [])))
   \<and> reschedule_tool ascii_ops [doctor_D] (calendar_answering (Some [])) (clock_at (wall (tuesday - 1) 9 0))
       ''D'' ''ev1'' (Some (wall tuesday 11 30)) (Some (wall tuesday 12 0)) []
       = (Inl Unauthorized, (calendar_answering (Some [])))
   \<and> fst (reschedule_tool ascii_ops [doctor_D] (calendar_answering (Some [])) (clock_at (wall (tuesday - 1) 9 0))
       ''D'' ''ev1'' (Some (wall tuesday 11 30)) (Some (wall tuesday 12 0)) (lit ''pat@mail.example''))
       = Inr ()
   \<and> list_appointments_tool ascii_ops [doctor_D] (calendar_answering (Some [])) (clock_at (wall (tuesday - 1) 9 0)) (Some ''D'') (Some (lit ''pat@mail.example'')) 30
       = Inr (Inr [\<lparr> a_doctor_id = ''D'', a_event_id = ''ev1'', a_start = wall tuesday 12 0,
             a_end = wall tuesday 12 30, a_summary = lit ''Consultation'' \<rparr>,
                   \<lparr> a_doctor_id = ''D'', a_event_id = ''ev3'', a_start = wall tuesday 12 0,
             a_end = wall tuesday 12 30, a_summary = lit ''Consultation'' \<rparr>])
   \<and> list_appointments_tool ascii_ops [doctor_D] (calendar_answering (Some [])) (clock_at (wall (tuesday - 1) 9 0)) (Some ''D'') None 30
       = Inr (Inl PatientEmailRequired)"
proof -
  note t = ownership_predicate[where ops=ascii_ops and ev=booked_event and patient_email="(lit ''pat@mail.example'')"
      and db="[doctor_D]" and g="(calendar_answering (Some []))" and did="''D''" and event_id="''ev1''"
      and clk="(clock_at (wall (tuesday - 1) 9 0))" and new_start="Some (wall tuesday 11 30)" and new_end="Some (wall tuesday 12 0)"
      and scope="Some ''D''" and window_days=30]
  have own1: "names_patient ascii_ops booked_event (lit ''pat@mail.example'')"
    using t pat_not_blank pat_owns_booked by simp
  have own3: "names_patient ascii_ops invited_event (lit ''pat@mail.example'')"
    using pat_owns_invited pat_not_blank(1) by (simp add: owner_iff)
  have a: "cancel_appointment_tool ascii_ops [doctor_D] (calendar_answering (Some [])) ''D'' ''ev1'' (lit ''pat@mail.example'')
       = (Inr (), (calendar_answering (Some []))\<lparr>events := (events (calendar_answering (Some [])))((''cal-D'', ''ev1'') := None)\<rparr>)"
    using t pat_not_blank own1
    by (simp add: find_doctor_D calendar_D events_answering)
  have b: "cancel_appointment_tool ascii_ops [doctor_D] (calendar_answering (Some [])) ''D'' ''ev1'' []
       = (Inl Unauthorized, (calendar_answering (Some [])))"
    using t by (simp add: find_doctor_D calendar_D events_answering)
  have c: "reschedule_tool ascii_ops [doctor_D] (calendar_answering (Some [])) (clock_at (wall (tuesday - 1) 9 0))
       ''D'' ''ev1'' (Some (wall tuesday 11 30)) (Some (wall tuesday 12 0)) []
       = (Inl Unauthorized, (calendar_answering (Some [])))"
    using t monday_before[of 11 30] within_D[of 11 30 12 0] free_D[of doctor_D "(wall tuesday 11 30)" "(wall tuesday 12 0)"]
    by (simp add: find_doctor_D calendar_D events_answering)
  have c': "fst (reschedule_tool ascii_ops [doctor_D] (calendar_answering (Some [])) (clock_at (wall (tuesday - 1) 9 0))
       ''D'' ''ev1'' (Some (wall tuesday 11 30)) (Some (wall tuesday 12 0)) (lit ''pat@mail.example''))
       = Inr ()"
    using t pat_not_blank own1 monday_before[of 11 30] within_D[of 11 30 12 0]
      free_D[of doctor_D "(wall tuesday 11 30)" "(wall tuesday 12 0)"]
    by (simp add: find_doctor_D calendar_D events_answering)
  obtain found where ret:
    "list_appointments_tool ascii_ops [doctor_D] (calendar_answering (Some [])) (clock_at (wall (tuesday - 1) 9 0)) (Some ''D'') (Some (lit ''pat@mail.example'')) 30
       = Inr (Inr found)"
    using list_D_returns[of "(calendar_answering (Some []))"] by (auto simp: listing_answering)
  have "found = [\<lparr> a_doctor_id = ''D'', a_event_id = ''ev1'', a_start = wall tuesday 12 0,
             a_end = wall tuesday 12 30, a_summary = lit ''Consultation'' \<rparr>,
                   \<lparr> a_doctor_id = ''D'', a_event_id = ''ev3'', a_start = wall tuesday 12 0,
             a_end = wall tuesday 12 30, a_summary = lit ''Consultation'' \<rparr>]"
    using t ret pat_not_blank own1 own3
    by (simp add: find_doctor_D calendar_D listing_answering)
       (simp add: doctor_D_def booked_event_def invited_event_def)
  with ret have d: "list_appointments_tool ascii_ops [doctor_D] (calendar_answering (Some [])) (clock_at (wall (tuesday - 1) 9 0)) (Some ''D'') (Some (lit ''pat@mail.example'')) 30
       = Inr (Inr [\<lparr> a_doctor_id = ''D'', a_event_id = ''ev1'', a_start = wall tuesday 12 0,
             a_end = wall tuesday 12 30, a_summary = lit ''Consultation'' \<rparr>,
                   \<lparr> a_doctor_id = ''D'', a_event_id = ''ev3'', a_start = wall tuesday 12 0,
             a_end = wall tuesday 12 30, a_summary = lit ''Consultation'' \<rparr>])"
    by simp
  have e: "list_appointments_tool ascii_ops [doctor_D] (calendar_answering (Some [])) (clock_at (wall (tuesday - 1) 9 0)) (Some ''D'') None 30
       = Inr (Inl PatientEmailRequired)"
    using t by simp
  from own1 a b c c' d e show ?thesis by simp
qed

text \<open>
  C10 as stated compares with the attendee's e-mail exactly and makes cancel with an empty
  e-mail always fail as unauthorized. The attendee \<^verbatim>\<open>Pat@Mail.Example\<close> followed by a blank
  makes \<^verbatim>\<open>pat@mail.example\<close> an owner of an event without description, and cancel for an
  unknown doctor fails with the unknown-doctor error.
\<close>

theorem ownership_counterexample:
  "event_contains_patient ascii_ops invited_event (lit ''pat@mail.example'')
   \<and> Some (lit ''pat@mail.example'') \<notin> set (attendees invited_event)
   \<and> description invited_event = None
   \<and> cancel_appointment_tool ascii_ops [doctor_D] (calendar_answering (Some [])) ''X'' ''ev1'' []
       = (Inl (UnknownDoctor ''X''), (calendar_answering (Some [])))"
  using pat_owns_invited
  by (simp add: invited_event_def lit_def cancel_appointment_tool_def find_doctor_def doctor_D_def)

end
